theory Spec2Isabelle
  imports Main "HOL-Library.Word" "HOL-Library.Sublist"
begin

unbundle bit_operations_syntax

section \<open>Common codes and abnormal outcomes\<close>

text \<open>
  The result codes of the host. Their numeric values live in a header that is not part
  of the sources; only their being distinct is used.
\<close>

datatype vlc_ret = VLC_SUCCESS | VLC_EGENERIC | VLC_ENOMEM

text \<open>
  What a C function does instead of returning: a blocked mutex, a failed \<open>assert\<close>, an
  error raised by the Lua library outside a protected call, and the undefined behaviours
  the modelled functions can reach.
\<close>

datatype fault =
    Blocked
  | NullLuaState
  | AssertionFailed
  | LuaPanic
  | OutOfBounds
  | UninitialisedRead
  | ReadPastEnd

section \<open>Archive access: zipaccess.c\<close>

subsection \<open>C strings and the library functions used\<close>

text \<open>
  A C string is the bytes in front of its terminator: \<open>c_string\<close> cuts a byte list
  at the first NUL.
\<close>

definition c_string :: "string \<Rightarrow> string" where
  "c_string bs = takeWhile (\<lambda>c. c \<noteq> CHR 0x00) bs"

text \<open>
  \<open>strdup\<close> copies a C string, and \<open>strcmp\<close> compares two of them: both
  stop at the terminator, whatever bytes follow it in memory. (Where the code tests the
  result of \<open>strdup\<close>, the outcome of the allocation is a parameter of the caller.)
\<close>

definition strdup :: "string \<Rightarrow> string" where
  "strdup s = c_string s"

definition strcmp_eq :: "string \<Rightarrow> string \<Rightarrow> bool" where
  "strcmp_eq a b \<longleftrightarrow> c_string a = c_string b"

text \<open>\<open>strstr\<close>: the offset of the first occurrence of the needle, if there is one.\<close>

fun strstr :: "string \<Rightarrow> string \<Rightarrow> nat option" where
  "strstr [] needle = (if needle = [] then Some 0 else None)"
| "strstr (c # hay) needle =
     (if prefix needle (c # hay) then Some 0
      else map_option Suc (strstr hay needle))"

definition isspace :: "char \<Rightarrow> bool" where
  "isspace c \<longleftrightarrow> c \<in> {CHR '' '', CHR 0x09, CHR 0x0A, CHR 0x0B, CHR 0x0C, CHR 0x0D}"

definition hexval :: "char \<Rightarrow> int option" where
  "hexval c =
     (let n = (of_char c :: int) in
      if 48 \<le> n \<and> n \<le> 57 then Some (n - 48)
      else if 97 \<le> n \<and> n \<le> 102 then Some (n - 87)
      else if 65 \<le> n \<and> n \<le> 70 then Some (n - 55)
      else None)"

text \<open>
  \<open>sscanf( s, "%02x", &i_value )\<close> returns \<open>EOF\<close> when the input ends before
  anything can be converted, 0 when the first character that is not white space cannot
  start a hexadecimal number, and 1 with the value stored otherwise. The directive skips
  leading white space, then reads at most two characters: an optional sign, an optional
  \<open>0x\<close> prefix, hexadecimal digits.
\<close>

datatype scan_result = ScanEOF | ScanNoMatch | ScanOK int

definition scan_hex2 :: "string \<Rightarrow> scan_result" where
  "scan_hex2 s =
     (case s of
        [] \<Rightarrow> ScanEOF
      | c # r \<Rightarrow>
          if c = CHR ''-'' \<or> c = CHR ''+'' then
            (case r of
               [] \<Rightarrow> ScanNoMatch
             | d # _ \<Rightarrow>
                 (case hexval d of
                    None \<Rightarrow> ScanNoMatch
                  | Some v \<Rightarrow> ScanOK (if c = CHR ''-'' then - v else v)))
          else
            (case hexval c of
               None \<Rightarrow> ScanNoMatch
             | Some v1 \<Rightarrow>
                 (case r of
                    [] \<Rightarrow> ScanOK v1
                  | d # _ \<Rightarrow>
                      (case hexval d of
                         None \<Rightarrow> if c = CHR ''0'' \<and> (d = CHR ''x'' \<or> d = CHR ''X'')
                                 then ScanOK 0 else ScanOK v1
                       | Some v2 \<Rightarrow> ScanOK (16 * v1 + v2)))))"

definition sscanf_02x :: "string \<Rightarrow> scan_result" where
  "sscanf_02x s = scan_hex2 (dropWhile isspace s)"

subsection \<open>unescapeXml\<close>

text \<open>
  \<open>unescapeXml\<close> gets a pointer: what it reads is the memory from that pointer to
  the end of the object it points into, which holds the text, its terminator and
  whatever follows the terminator in the same object. The loop is given over the rest
  of that memory, with the bytes written so far (latest first) and the size of the
  output buffer, \<open>strlen( psz_text ) + 1\<close>. After a \<open>?\<close> the iterator is moved
  on by one for \<open>sscanf\<close>, by one more after the conversion and by one more by the
  loop header, whatever \<open>sscanf\<close> consumed: the two bytes after the \<open>?\<close> are
  skipped, also when one of them is the terminator, and the loop then goes on in the
  bytes behind it. The test \<open>!sscanf(...)\<close> sees a failure only in the return value
  0: on \<open>EOF\<close> the function goes on and reads \<open>i_value\<close>, which was never
  written. Reading behind the end of the object and writing behind the end of the
  output buffer are faults.
  \<open>isAllowedChar\<close> is declared in a header that is not part of the sources: it is a
  parameter.
\<close>

fun unescapeXml_loop ::
  "(char \<Rightarrow> bool) \<Rightarrow> string \<Rightarrow> string \<Rightarrow> nat \<Rightarrow> fault + string option"
where
  "unescapeXml_loop isAllowedChar [] out i_size = Inl ReadPastEnd"
| "unescapeXml_loop isAllowedChar (c # rest) out i_size =
     (if c = CHR 0x00 then
        (if length out < i_size then Inr (Some (c_string (rev out))) else Inl OutOfBounds)
      else if c = CHR ''?'' then
        (case sscanf_02x (c_string rest) of
           ScanNoMatch \<Rightarrow> Inr None
         | ScanEOF \<Rightarrow> Inl UninitialisedRead
         | ScanOK i_value \<Rightarrow>
             if \<not> length out < i_size then Inl OutOfBounds
             else
               (case rest of
                  [] \<Rightarrow> Inl ReadPastEnd
                | [_] \<Rightarrow> Inl ReadPastEnd
                | _ # _ # rest' \<Rightarrow>
                    unescapeXml_loop isAllowedChar rest' (char_of i_value # out) i_size))
      else if isAllowedChar c then
        (if \<not> length out < i_size then Inl OutOfBounds
         else unescapeXml_loop isAllowedChar rest (c # out) i_size)
      else Inr None)"

text \<open>
  \<open>unescapeXml\<close> on the memory behind its argument: \<open>Inr None\<close> is the
  \<open>NULL\<close> result, also returned when \<open>malloc\<close> fails (\<open>malloc_ok\<close> is the
  outcome of that allocation).
\<close>

definition unescapeXml_mem ::
  "(char \<Rightarrow> bool) \<Rightarrow> bool \<Rightarrow> string \<Rightarrow> fault + string option"
where
  "unescapeXml_mem isAllowedChar malloc_ok mem =
     (if CHR 0x00 \<notin> set mem then Inl ReadPastEnd
      else if \<not> malloc_ok then Inr None
      else unescapeXml_loop isAllowedChar mem [] (length (c_string mem) + 1))"

text \<open>\<open>unescapeXml\<close> on a string that is an object of its own.\<close>

definition unescapeXml :: "(char \<Rightarrow> bool) \<Rightarrow> bool \<Rightarrow> string \<Rightarrow> fault + string option" where
  "unescapeXml isAllowedChar malloc_ok psz_text =
     unescapeXml_mem isAllowedChar malloc_ok (c_string psz_text @ [CHR 0x00])"

subsection \<open>AccessOpen\<close>

text \<open>
  What \<open>AccessOpen\<close> depends on besides the locator: the separator \<open>ZIP_SEP\<close> and
  the allow-list (both from a header that is not part of the sources;
  \<open>ZIP_SEP_LEN\<close> is the length of the separator), the outcome of each allocation
  that the function checks, and the archive library.
\<close>

record access_env =
  ZIP_SEP :: string
  allowed_char :: "char \<Rightarrow> bool"
  calloc_sys_ok :: bool
  malloc_path_ok :: bool
  strdup_path_ok :: bool
  malloc_file_ok :: bool
  strdup_file_ok :: bool
  unzOpen2 :: "string \<Rightarrow> bool"
  unzLocateFile :: "string \<Rightarrow> string \<Rightarrow> bool"
  unzOpenCurrentFile :: "string \<Rightarrow> string \<Rightarrow> bool"

text \<open>
  The result: the code returned, the two strings the locator was split into (as they are
  when the archive library is called; absent when the function returns before) and
  whether the session is left open.
\<close>

record access_open =
  access_ret :: vlc_ret
  psz_pathToZip :: "string option"
  psz_fileInzip :: "string option"
  zipFile_open :: bool

definition ZIP_SEP_LEN :: "access_env \<Rightarrow> nat" where
  "ZIP_SEP_LEN env = length (ZIP_SEP env)"

text \<open>
  The copy of the locator that \<open>AccessOpen\<close> splits: one object, in which the first
  byte of the separator is overwritten by a terminator. The archive path is read at its
  start and the inner path behind the separator, both in this one object.
\<close>

definition split_buffer :: "string \<Rightarrow> nat \<Rightarrow> string" where
  "split_buffer location i_sep = (c_string location @ [CHR 0x00])[i_sep := CHR 0x00]"

definition AccessOpen :: "access_env \<Rightarrow> string \<Rightarrow> fault + access_open" where
  "AccessOpen env psz_location =
     (case strstr (c_string psz_location) (ZIP_SEP env) of
        None \<Rightarrow>
          Inr \<lparr>access_ret = VLC_EGENERIC, psz_pathToZip = None, psz_fileInzip = None,
               zipFile_open = False\<rparr>
      | Some i_sep \<Rightarrow>
          if \<not> calloc_sys_ok env then
            Inr \<lparr>access_ret = VLC_ENOMEM, psz_pathToZip = None, psz_fileInzip = None,
                 zipFile_open = False\<rparr>
          else
            let psz_path = split_buffer psz_location i_sep;
                psz_after = drop (i_sep + ZIP_SEP_LEN env) psz_path
            in
            (case unescapeXml_mem (allowed_char env) (malloc_path_ok env) psz_path of
               Inl f \<Rightarrow> Inl f
             | Inr r1 \<Rightarrow>
                 (case (case r1 of
                          Some s \<Rightarrow> Some s
                        | None \<Rightarrow> if strdup_path_ok env then Some (strdup psz_path) else None) of
                    None \<Rightarrow>
                      Inr \<lparr>access_ret = VLC_ENOMEM, psz_pathToZip = None, psz_fileInzip = None,
                           zipFile_open = False\<rparr>
                  | Some pathToZip \<Rightarrow>
                      (case unescapeXml_mem (allowed_char env) (malloc_file_ok env) psz_after of
                         Inl f \<Rightarrow> Inl f
                       | Inr r2 \<Rightarrow>
                           (case (case r2 of
                                    Some s \<Rightarrow> Some s
                                  | None \<Rightarrow>
                                      if strdup_file_ok env then Some (strdup psz_after)
                                      else None) of
                              None \<Rightarrow>
                                Inr \<lparr>access_ret = VLC_ENOMEM, psz_pathToZip = Some pathToZip,
                                     psz_fileInzip = None, zipFile_open = False\<rparr>
                            | Some fileInzip \<Rightarrow>
                                if \<not> unzOpen2 env pathToZip then
                                  Inr \<lparr>access_ret = VLC_EGENERIC, psz_pathToZip = Some pathToZip,
                                       psz_fileInzip = Some fileInzip, zipFile_open = False\<rparr>
                                else if \<not> unzLocateFile env pathToZip fileInzip then
                                  Inr \<lparr>access_ret = VLC_EGENERIC, psz_pathToZip = Some pathToZip,
                                       psz_fileInzip = Some fileInzip, zipFile_open = False\<rparr>
                                else if \<not> unzOpenCurrentFile env pathToZip fileInzip then
                                  Inr \<lparr>access_ret = VLC_EGENERIC, psz_pathToZip = Some pathToZip,
                                       psz_fileInzip = Some fileInzip, zipFile_open = False\<rparr>
                                else
                                  Inr \<lparr>access_ret = VLC_SUCCESS, psz_pathToZip = Some pathToZip,
                                       psz_fileInzip = Some fileInzip,
                                       zipFile_open = True\<rparr>)))))"

subsection \<open>The seek callback of the archive library\<close>

text \<open>
  A stream, as far as the seek callback uses it: its offset (\<open>vlc_stream_Tell\<close>), its
  size (\<open>stream_Size\<close>) and whether a seek to a given position succeeds. Offsets are
  64-bit.
\<close>

record stream_t =
  s_offset :: "64 word"
  s_size :: "64 word"
  s_can_seek :: "64 word \<Rightarrow> bool"

definition vlc_stream_Tell :: "stream_t \<Rightarrow> 64 word" where
  "vlc_stream_Tell s = s_offset s"

definition stream_Size :: "stream_t \<Rightarrow> 64 word" where
  "stream_Size s = s_size s"

definition vlc_stream_Seek :: "stream_t \<Rightarrow> 64 word \<Rightarrow> vlc_ret \<times> stream_t" where
  "vlc_stream_Seek s pos =
     (if s_can_seek s pos then (VLC_SUCCESS, s\<lparr>s_offset := pos\<rparr>) else (VLC_EGENERIC, s))"

definition SEEK_SET :: int where "SEEK_SET = 0"
definition SEEK_CUR :: int where "SEEK_CUR = 1"
definition SEEK_END :: int where "SEEK_END = 2"

text \<open>
  \<open>ZipIO_Seek\<close>: the offset is an unsigned long of the platform's width, widened to
  the signed 64-bit \<open>pos\<close>; the additions wrap and the test \<open>pos < 0\<close> reads
  the sum as two's complement. The result of \<open>vlc_stream_Seek\<close> is dropped.
\<close>

definition ZipIO_Seek :: "stream_t \<Rightarrow> 'a::len word \<Rightarrow> int \<Rightarrow> int \<times> stream_t" where
  "ZipIO_Seek stream offset origin =
     (let pos = (ucast offset :: 64 word) in
      case (if origin = SEEK_CUR then Some (pos + vlc_stream_Tell stream)
            else if origin = SEEK_SET then Some pos
            else if origin = SEEK_END then Some (pos + stream_Size stream)
            else None) of
        None \<Rightarrow> (- 1, stream)
      | Some pos \<Rightarrow>
          if sint pos < 0 then (- 1, stream) else (0, snd (vlc_stream_Seek stream pos)))"

section \<open>Extensions: extension.c\<close>

subsection \<open>The Lua interpreter, as far as the extension manager uses it\<close>

text \<open>
  Lua values. A table is given by the length \<open>lua_objlen\<close> reports for it and by its
  entries in the order in which \<open>lua_next\<close> walks them. Numbers are given by the
  integer \<open>luaL_checkinteger\<close> reads from them.
\<close>

datatype lua_value =
    LNil
  | LBoolean bool
  | LNumber int
  | LString string
  | LTable nat "(lua_value \<times> lua_value) list"
  | LFunction nat
  | LUserdata

text \<open>A Lua state: the global variables and the stack, top first.\<close>

record lua_State =
  lua_globals :: "string \<Rightarrow> lua_value"
  lua_stack :: "lua_value list"

datatype call_result = Raised lua_value | Result lua_value

text \<open>
  The interpreter and the scripts are external: \<open>luaL_newstate\<close> gives a fresh state
  (with the libraries the manager registers) or fails; \<open>luaL_dofile\<close> runs a script
  in a state and says whether it failed; \<open>lua_call\<close> is what calling a function
  value with arguments does to the globals, and whether it raises or returns a value;
  the two conversions are Lua's coercions between numbers and strings.
  \<open>NDEBUG\<close> tells whether \<open>assert\<close> is compiled out.
\<close>

record lua_env =
  luaL_newstate :: "lua_State option"
  luaL_dofile :: "string \<Rightarrow> lua_State \<Rightarrow> bool \<times> lua_State"
  luaopen_dialog :: "lua_State \<Rightarrow> lua_State"
  lua_call :: "nat \<Rightarrow> lua_value list \<Rightarrow> (string \<Rightarrow> lua_value) \<Rightarrow>
               call_result \<times> (string \<Rightarrow> lua_value)"
  lua_number2str :: "int \<Rightarrow> string"
  lua_str2number :: "string \<Rightarrow> int option"
  NDEBUG :: bool

definition lua_gettop :: "lua_State \<Rightarrow> nat" where
  "lua_gettop l = length (lua_stack l)"

text \<open>The value at the negative index \<open>- k\<close>: \<open>lua_index l 1\<close> is the top.\<close>

definition lua_index :: "lua_State \<Rightarrow> nat \<Rightarrow> lua_value" where
  "lua_index l k =
     (if 1 \<le> k \<and> k \<le> length (lua_stack l) then lua_stack l ! (k - 1) else LNil)"

definition lua_push :: "lua_State \<Rightarrow> lua_value \<Rightarrow> lua_State" where
  "lua_push l v = l\<lparr>lua_stack := v # lua_stack l\<rparr>"

definition lua_pop :: "lua_State \<Rightarrow> nat \<Rightarrow> lua_State" where
  "lua_pop l n = l\<lparr>lua_stack := drop n (lua_stack l)\<rparr>"

definition lua_getglobal :: "lua_State \<Rightarrow> string \<Rightarrow> lua_State" where
  "lua_getglobal l name = lua_push l (lua_globals l name)"

definition lua_isfunction :: "lua_value \<Rightarrow> bool" where
  "lua_isfunction v = (case v of LFunction _ \<Rightarrow> True | _ \<Rightarrow> False)"

definition lua_istable :: "lua_value \<Rightarrow> bool" where
  "lua_istable v = (case v of LTable _ _ \<Rightarrow> True | _ \<Rightarrow> False)"

definition lua_isstring :: "lua_value \<Rightarrow> bool" where
  "lua_isstring v = (case v of LString _ \<Rightarrow> True | LNumber _ \<Rightarrow> True | _ \<Rightarrow> False)"

definition lua_isnumber :: "lua_env \<Rightarrow> lua_value \<Rightarrow> bool" where
  "lua_isnumber env v =
     (case v of
        LNumber _ \<Rightarrow> True
      | LString s \<Rightarrow> lua_str2number env s \<noteq> None
      | _ \<Rightarrow> False)"

text \<open>
  \<open>luaL_checkstring\<close> and \<open>luaL_checkinteger\<close>: \<open>None\<close> when they raise.
  The string is given with all the bytes of the Lua string, which may hold NUL bytes;
  the C functions that get the pointer read it up to the first of them.
\<close>

definition luaL_checkstring :: "lua_env \<Rightarrow> lua_value \<Rightarrow> string option" where
  "luaL_checkstring env v =
     (case v of
        LString s \<Rightarrow> Some s
      | LNumber n \<Rightarrow> Some (lua_number2str env n)
      | _ \<Rightarrow> None)"

definition luaL_checkinteger :: "lua_env \<Rightarrow> lua_value \<Rightarrow> int option" where
  "luaL_checkinteger env v =
     (case v of
        LNumber n \<Rightarrow> Some n
      | LString s \<Rightarrow> lua_str2number env s
      | _ \<Rightarrow> None)"

definition lua_objlen :: "lua_value \<Rightarrow> nat" where
  "lua_objlen v = (case v of LTable n _ \<Rightarrow> n | LString s \<Rightarrow> length s | _ \<Rightarrow> 0)"

definition lua_entries :: "lua_value \<Rightarrow> (lua_value \<times> lua_value) list" where
  "lua_entries v = (case v of LTable _ kvs \<Rightarrow> kvs | _ \<Rightarrow> [])"

text \<open>The value \<open>lua_getfield\<close> pushes for a string key.\<close>

definition lua_field :: "lua_value \<Rightarrow> string \<Rightarrow> lua_value" where
  "lua_field v name =
     (case map_of (lua_entries v) (LString name) of None \<Rightarrow> LNil | Some x \<Rightarrow> x)"

text \<open>
  \<open>lua_pcall( L, nargs, 1, 0 )\<close>: the function and its arguments are replaced by
  one value, the result or the error message; the flag is the nonzero return.
\<close>

definition lua_pcall :: "lua_env \<Rightarrow> lua_State \<Rightarrow> nat \<Rightarrow> bool \<times> lua_State" where
  "lua_pcall env l nargs =
     (let args = rev (take nargs (lua_stack l)); below = drop (Suc nargs) (lua_stack l) in
      case lua_index l (Suc nargs) of
        LFunction f \<Rightarrow>
          (case lua_call env f args (lua_globals l) of
             (Raised msg, g) \<Rightarrow> (True, \<lparr>lua_globals = g, lua_stack = msg # below\<rparr>)
           | (Result v, g) \<Rightarrow> (False, \<lparr>lua_globals = g, lua_stack = v # below\<rparr>))
      | _ \<Rightarrow> (True, l\<lparr>lua_stack := LString ''attempt to call a value'' # below\<rparr>))"

subsection \<open>Extensions\<close>

definition EXT_HAS_MENU :: "32 word" where "EXT_HAS_MENU = push_bit 0 1"
definition EXT_TRIGGER_ONLY :: "32 word" where "EXT_TRIGGER_ONLY = push_bit 1 1"
definition EXT_INPUT_LISTENER :: "32 word" where "EXT_INPUT_LISTENER = push_bit 2 1"

definition ppsz_capabilities :: "string list" where
  "ppsz_capabilities = [''menu'', ''trigger'', ''input-listener'']"

text \<open>
  An extension with the fields of its private part: the Lua state (absent when there is
  none), the capability flags, the exiting flag, and the running lock, given by the
  thread that holds it.
\<close>

record extension_t =
  psz_name :: string
  psz_title :: "string option"
  psz_author :: "string option"
  psz_description :: "string option"
  psz_url :: "string option"
  psz_version :: "string option"
  sys_L :: "lua_State option"
  i_capabilities :: "32 word"
  b_exiting :: bool
  running_lock :: "nat option"

record extensions_manager =
  extensions :: "extension_t list"

subsection \<open>The running lock\<close>

text \<open>
  \<open>vlc_mutex_lock\<close> returns once the mutex is free; \<open>None\<close> says that it cannot
  return in this state.
\<close>

definition vlc_mutex_lock :: "nat \<Rightarrow> extension_t \<Rightarrow> extension_t option" where
  "vlc_mutex_lock me e =
     (case running_lock e of None \<Rightarrow> Some (e\<lparr>running_lock := Some me\<rparr>) | Some _ \<Rightarrow> None)"

definition vlc_mutex_unlock :: "extension_t \<Rightarrow> extension_t" where
  "vlc_mutex_unlock e = e\<lparr>running_lock := None\<rparr>"

text \<open>
  \<open>LockExtension\<close> runs among other threads, so it is given step by step: the first
  test of the flag, the acquisition (which waits while the mutex is held), the second
  test, the release, the return.
\<close>

datatype lock_pc = AtCheck1 | AtLock | AtCheck2 | AtUnlock | LockReturn bool

fun LockExtension_step :: "nat \<Rightarrow> lock_pc \<Rightarrow> extension_t \<Rightarrow> lock_pc \<times> extension_t" where
  "LockExtension_step me AtCheck1 e =
     (if b_exiting e then (LockReturn False, e) else (AtLock, e))"
| "LockExtension_step me AtLock e =
     (case vlc_mutex_lock me e of None \<Rightarrow> (AtLock, e) | Some e' \<Rightarrow> (AtCheck2, e'))"
| "LockExtension_step me AtCheck2 e =
     (if b_exiting e then (AtUnlock, e) else (LockReturn True, e))"
| "LockExtension_step me AtUnlock e = (LockReturn False, vlc_mutex_unlock e)"
| "LockExtension_step me (LockReturn b) e = (LockReturn b, e)"

text \<open>
  What the other threads do to the extension in between: they set or clear the flag, and
  they take the mutex when it is free and release it when they hold it.
\<close>

datatype env_action = SetExiting bool | OtherLock nat | OtherUnlock nat

fun env_step :: "nat \<Rightarrow> env_action \<Rightarrow> extension_t \<Rightarrow> extension_t" where
  "env_step me (SetExiting b) e = e\<lparr>b_exiting := b\<rparr>"
| "env_step me (OtherLock t) e =
     (if t \<noteq> me \<and> running_lock e = None then e\<lparr>running_lock := Some t\<rparr> else e)"
| "env_step me (OtherUnlock t) e =
     (if t \<noteq> me \<and> running_lock e = Some t then e\<lparr>running_lock := None\<rparr> else e)"

datatype sched = Caller | Other env_action

text \<open>
  A run of one call under a schedule. The third component lists the values of the flag
  that the caller has read, in order.
\<close>

fun reads_flag :: "lock_pc \<Rightarrow> bool" where
  "reads_flag AtCheck1 = True"
| "reads_flag AtCheck2 = True"
| "reads_flag _ = False"

fun run_LockExtension ::
  "nat \<Rightarrow> sched list \<Rightarrow> lock_pc \<times> extension_t \<times> bool list \<Rightarrow> lock_pc \<times> extension_t \<times> bool list"
where
  "run_LockExtension me [] c = c"
| "run_LockExtension me (Caller # ss) (pc, e, seen) =
     run_LockExtension me ss
       (fst (LockExtension_step me pc e), snd (LockExtension_step me pc e),
        if reads_flag pc then seen @ [b_exiting e] else seen)"
| "run_LockExtension me (Other a # ss) (pc, e, seen) =
     run_LockExtension me ss (pc, env_step me a e, seen)"

text \<open>
  The call with no other thread running in between: four steps reach the return unless
  the mutex is held, and then nothing will release it.
\<close>

definition LockExtension :: "nat \<Rightarrow> extension_t \<Rightarrow> (bool \<times> extension_t) option" where
  "LockExtension me e =
     (case run_LockExtension me [Caller, Caller, Caller, Caller] (AtCheck1, e, []) of
        (LockReturn b, e', _) \<Rightarrow> Some (b, e')
      | _ \<Rightarrow> None)"

definition UnlockExtension :: "extension_t \<Rightarrow> extension_t" where
  "UnlockExtension e = vlc_mutex_unlock e"

subsection \<open>The interpreter of an extension\<close>

text \<open>
  \<open>GetLuaState\<close> for an extension: the state it holds, or else a new one in which
  the script has been run, stored in the extension. The result \<open>None\<close> is
  \<open>NULL\<close>. (The call with no extension is made by the module's entry point only.)
\<close>

definition GetLuaState :: "lua_env \<Rightarrow> extension_t \<Rightarrow> lua_State option \<times> extension_t" where
  "GetLuaState env p_ext =
     (case sys_L p_ext of
        Some l \<Rightarrow> (Some l, p_ext)
      | None \<Rightarrow>
          (case luaL_newstate env of
             None \<Rightarrow> (None, p_ext)
           | Some l0 \<Rightarrow>
               (case luaL_dofile env (psz_name p_ext) l0 of
                  (True, l1) \<Rightarrow> (None, p_ext)
                | (False, l1) \<Rightarrow> (Some l1, p_ext\<lparr>sys_L := Some l1\<rparr>))))"

text \<open>
  \<open>lua_ExecuteFunction\<close> uses the state without testing it: with \<open>NULL\<close> it
  does not return a code. The state it works on is the one the extension holds.
\<close>

definition lua_ExecuteFunction ::
  "lua_env \<Rightarrow> extension_t \<Rightarrow> string \<Rightarrow> fault + vlc_ret \<times> extension_t"
where
  "lua_ExecuteFunction env p_ext psz_function =
     (let i_ret = VLC_EGENERIC in
      case GetLuaState env p_ext of
        (None, e1) \<Rightarrow> Inl NullLuaState
      | (Some l, e1) \<Rightarrow>
          let l1 = lua_getglobal l psz_function in
          if \<not> lua_isfunction (lua_index l1 1) then Inr (i_ret, e1\<lparr>sys_L := Some l1\<rparr>)
          else
            (case lua_pcall env l1 0 of
               (True, l2) \<Rightarrow> Inr (i_ret, e1\<lparr>sys_L := Some l2\<rparr>)
             | (False, l2) \<Rightarrow> Inr (VLC_SUCCESS, e1\<lparr>sys_L := Some l2\<rparr>)))"

definition lua_ExtensionActivate ::
  "lua_env \<Rightarrow> extension_t \<Rightarrow> fault + vlc_ret \<times> extension_t"
where
  "lua_ExtensionActivate env p_ext = lua_ExecuteFunction env p_ext ''activate''"

definition lua_close :: "extension_t \<Rightarrow> extension_t" where
  "lua_close p_ext = p_ext\<lparr>sys_L := None\<rparr>"

definition lua_ExtensionDeactivate ::
  "lua_env \<Rightarrow> extension_t \<Rightarrow> fault + vlc_ret \<times> extension_t"
where
  "lua_ExtensionDeactivate env p_ext =
     (case sys_L p_ext of
        None \<Rightarrow> Inr (VLC_SUCCESS, p_ext)
      | Some _ \<Rightarrow>
          (case lua_ExecuteFunction env p_ext ''deactivate'' of
             Inl f \<Rightarrow> Inl f
           | Inr (i_ret, e1) \<Rightarrow> Inr (i_ret, lua_close e1)))"

definition lua_ExtensionTriggerMenu ::
  "lua_env \<Rightarrow> extension_t \<Rightarrow> int \<Rightarrow> vlc_ret \<times> extension_t"
where
  "lua_ExtensionTriggerMenu env p_ext i_id =
     (let i_ret = VLC_EGENERIC in
      case GetLuaState env p_ext of
        (None, e1) \<Rightarrow> (VLC_EGENERIC, e1)
      | (Some l, e1) \<Rightarrow>
          let l1 = lua_getglobal (luaopen_dialog env l) ''trigger_menu'' in
          if \<not> lua_isfunction (lua_index l1 1) then (VLC_EGENERIC, e1\<lparr>sys_L := Some l1\<rparr>)
          else
            (case lua_pcall env (lua_push l1 (LNumber i_id)) 1 of
               (True, l2) \<Rightarrow> (VLC_EGENERIC, e1\<lparr>sys_L := Some l2\<rparr>)
             | (False, l2) \<Rightarrow> (i_ret, e1\<lparr>sys_L := Some l2\<rparr>)))"

subsection \<open>GetMenuEntries\<close>

text \<open>
  The walk over the menu table, with the index of the next free slot and the two arrays,
  which have \<open>i_size + 1\<close> slots. It stops at the first entry that is not a string
  under a number and gives that entry back.
\<close>

fun menu_walk ::
  "lua_env \<Rightarrow> (lua_value \<times> lua_value) list \<Rightarrow> nat \<Rightarrow> nat \<Rightarrow> string option list \<Rightarrow>
   16 word list \<Rightarrow> fault + (lua_value \<times> lua_value) option \<times> string option list \<times> 16 word list"
where
  "menu_walk env [] i_size i_idx titles ids = Inr (None, titles, ids)"
| "menu_walk env ((k, v) # rest) i_size i_idx titles ids =
     (if \<not> NDEBUG env \<and> \<not> i_idx < i_size then Inl AssertionFailed
      else if \<not> lua_isstring v \<or> \<not> lua_isnumber env k then Inr (Some (k, v), titles, ids)
      else if \<not> i_idx < i_size + 1 then Inl OutOfBounds
      else
        (case (luaL_checkstring env v, luaL_checkinteger env k) of
           (Some title, Some n) \<Rightarrow>
             menu_walk env rest i_size (Suc i_idx)
               (titles[i_idx := Some (strdup title)])
               (ids[i_idx := (word_of_int (n AND 0xFFFF) :: 16 word)])
         | _ \<Rightarrow> Inl LuaPanic))"


record menu_out =
  m_ret :: vlc_ret
  m_ext :: extension_t
  pppsz_titles :: "string option list option"
  ppi_ids :: "16 word list option"

text \<open>
  \<open>GetMenuEntries\<close> for the thread \<open>me\<close>; \<open>activated\<close> is the answer of
  \<open>IsActivated\<close>, which belongs to a file that is not part of the sources.
\<close>

definition GetMenuEntries ::
  "lua_env \<Rightarrow> nat \<Rightarrow> bool \<Rightarrow> extension_t \<Rightarrow> fault + menu_out"
where
  "GetMenuEntries env me activated p_ext =
     (if \<not> activated then
        Inr \<lparr>m_ret = VLC_EGENERIC, m_ext = p_ext, pppsz_titles = None, ppi_ids = None\<rparr>
      else
        (case LockExtension me p_ext of
           None \<Rightarrow> Inl Blocked
         | Some (False, e1) \<Rightarrow>
             Inr \<lparr>m_ret = VLC_EGENERIC, m_ext = e1, pppsz_titles = None, ppi_ids = None\<rparr>
         | Some (True, e1) \<Rightarrow>
             (let i_ret = VLC_EGENERIC in
              case GetLuaState env e1 of
                (L, e2) \<Rightarrow>
                  if i_capabilities e2 AND EXT_HAS_MENU = 0 then
                    Inr \<lparr>m_ret = i_ret, m_ext = UnlockExtension e2,
                         pppsz_titles = None, ppi_ids = None\<rparr>
                  else
                    (case L of
                       None \<Rightarrow> Inl NullLuaState
                     | Some l \<Rightarrow>
                         let l1 = lua_getglobal l ''menu'' in
                         if \<not> lua_isfunction (lua_index l1 1) then
                           Inr \<lparr>m_ret = i_ret,
                                m_ext = UnlockExtension (e2\<lparr>sys_L := Some l1\<rparr>),
                                pppsz_titles = None, ppi_ids = None\<rparr>
                         else
                           (case lua_pcall env l1 0 of
                              (True, l2) \<Rightarrow>
                                Inr \<lparr>m_ret = i_ret,
                                     m_ext = UnlockExtension (e2\<lparr>sys_L := Some l2\<rparr>),
                                     pppsz_titles = None, ppi_ids = None\<rparr>
                            | (False, l2) \<Rightarrow>
                                if lua_gettop l2 = 0 \<or> \<not> lua_istable (lua_index l2 1) then
                                  Inr \<lparr>m_ret = i_ret,
                                       m_ext = UnlockExtension (e2\<lparr>sys_L := Some l2\<rparr>),
                                       pppsz_titles = None, ppi_ids = None\<rparr>
                                else
                                  (let i_size = lua_objlen (lua_index l2 1) in
                                   case menu_walk env (lua_entries (lua_index l2 1)) i_size 0
                                          (replicate (i_size + 1) None)
                                          (replicate (i_size + 1) 0) of
                                     Inl f \<Rightarrow> Inl f
                                   | Inr (Some (k, v), titles, ids) \<Rightarrow>
                                       Inr \<lparr>m_ret = i_ret,
                                            m_ext = UnlockExtension
                                              (e2\<lparr>sys_L := Some (lua_push (lua_push l2 k) v)\<rparr>),
                                            pppsz_titles = Some titles, ppi_ids = Some ids\<rparr>
                                   | Inr (None, titles, ids) \<Rightarrow>
                                       Inr \<lparr>m_ret = VLC_SUCCESS,
                                            m_ext = UnlockExtension (e2\<lparr>sys_L := Some l2\<rparr>),
                                            pppsz_titles = Some titles,
                                            ppi_ids = Some ids\<rparr>))))))"

subsection \<open>Scanning a script\<close>

text \<open>
  The search for one capability name in \<open>ppsz_capabilities\<close>, from the entry
  \<open>i_cap\<close> on: the flags with the bit of the first entry that \<open>strcmp\<close>
  finds equal to the name, and whether there is one. The name is the C string that
  \<open>luaL_checkstring\<close> points to: the bytes of the Lua string up to the first
  NUL.
\<close>

fun find_capability :: "string list \<Rightarrow> nat \<Rightarrow> string \<Rightarrow> 32 word \<Rightarrow> 32 word \<times> bool" where
  "find_capability [] i_cap psz_cap caps = (caps, False)"
| "find_capability (iter # rest) i_cap psz_cap caps =
     (if strcmp_eq iter psz_cap then (caps OR push_bit i_cap 1, True)
      else find_capability rest (Suc i_cap) psz_cap caps)"

text \<open>
  The walk over the table of capabilities. \<open>luaL_checkstring\<close> is called outside a
  protected call: when it raises, the interpreter panics.
\<close>

fun scan_capabilities ::
  "lua_env \<Rightarrow> (lua_value \<times> lua_value) list \<Rightarrow> 32 word \<Rightarrow> fault + 32 word"
where
  "scan_capabilities env [] caps = Inr caps"
| "scan_capabilities env ((k, v) # rest) caps =
     (case luaL_checkstring env v of
        None \<Rightarrow> Inl LuaPanic
      | Some psz_cap \<Rightarrow>
          scan_capabilities env rest (fst (find_capability ppsz_capabilities 0 psz_cap caps)))"

definition descriptor_string :: "lua_env \<Rightarrow> lua_value \<Rightarrow> string \<Rightarrow> string option" where
  "descriptor_string env tbl name =
     (if lua_isstring (lua_field tbl name)
      then map_option strdup (luaL_checkstring env (lua_field tbl name))
      else None)"

text \<open>The descriptor that \<open>calloc\<close> gives, with the name of the script.\<close>

definition new_extension :: "string \<Rightarrow> extension_t" where
  "new_extension psz_script =
     \<lparr>psz_name = psz_script, psz_title = None, psz_author = None, psz_description = None,
      psz_url = None, psz_version = None, sys_L = None, i_capabilities = 0,
      b_exiting = False, running_lock = None\<rparr>"

text \<open>
  \<open>ScanLuaCallback\<close>, given the outcome of its two checked allocations, the
  manager, the script, the state shared by the scan and the flag \<open>pb_continue\<close>
  points to, if any. It returns its code, the manager and the shared state.
\<close>

definition ScanLuaCallback ::
  "lua_env \<Rightarrow> bool \<Rightarrow> bool \<Rightarrow> extensions_manager \<Rightarrow> string \<Rightarrow> lua_State \<Rightarrow> bool option \<Rightarrow>
   fault + int \<times> extensions_manager \<times> lua_State"
where
  "ScanLuaCallback env calloc_ext_ok alloc_sys_ok p_mgr psz_script L0 pb_continue =
     (let continue = (case pb_continue of None \<Rightarrow> - 1 | Some b \<Rightarrow> if b then - 1 else 0) in
      if \<not> calloc_ext_ok then Inr (0, p_mgr, L0)
      else if \<not> alloc_sys_ok then Inr (0, p_mgr, L0)
      else
        let p_ext = new_extension psz_script in
        (case luaL_dofile env psz_script L0 of
           (True, L1) \<Rightarrow> Inr (continue, p_mgr, lua_pop L1 1)
         | (False, L1) \<Rightarrow>
             let L2 = lua_getglobal L1 ''descriptor'' in
             if \<not> lua_isfunction (lua_index L2 1) then Inr (continue, p_mgr, L2)
             else
               (case lua_pcall env L2 0 of
                  (True, L3) \<Rightarrow> Inr (continue, p_mgr, L3)
                | (False, L3) \<Rightarrow>
                    if lua_gettop L3 = 0 \<or> \<not> lua_istable (lua_index L3 1) then
                      Inr (continue, p_mgr, L3)
                    else
                      let tbl = lua_index L3 1; caps_field = lua_field tbl ''capabilities'' in
                      (case (if lua_istable caps_field
                             then scan_capabilities env (lua_entries caps_field)
                                    (i_capabilities p_ext)
                             else Inr (i_capabilities p_ext)) of
                         Inl f \<Rightarrow> Inl f
                       | Inr caps \<Rightarrow>
                           Inr (continue,
                                p_mgr\<lparr>extensions := extensions p_mgr @
                                  [p_ext\<lparr>i_capabilities := caps,
                                         psz_title :=
                                           (case descriptor_string env tbl ''title'' of
                                              Some t \<Rightarrow> Some t
                                            | None \<Rightarrow> Some psz_script),
                                         psz_author := descriptor_string env tbl ''author'',
                                         psz_description :=
                                           descriptor_string env tbl ''description'',
                                         psz_url := descriptor_string env tbl ''url'',
                                         psz_version :=
                                           descriptor_string env tbl ''version''\<rparr>]\<rparr>,
                                L3)))))"

text \<open>
  The bitset as the specification words it: every name that is in the vocabulary gives
  the flag at its position there, every other name gives none, and the flags are joined
  by bitwise or.
\<close>

definition capability_flag :: "string \<Rightarrow> 32 word" where
  "capability_flag name =
     (if name = ''menu'' then EXT_HAS_MENU
      else if name = ''trigger'' then EXT_TRIGGER_ONLY
      else if name = ''input-listener'' then EXT_INPUT_LISTENER
      else 0)"

definition spec_capabilities :: "string list \<Rightarrow> 32 word" where
  "spec_capabilities names = fold (\<lambda>name caps. caps OR capability_flag name) names 0"

subsection \<open>What holds at each point of a call to LockExtension\<close>

text \<open>
  For a caller that did not hold the mutex when it called: the values of the flag it has
  read so far and whether it holds the mutex, for each point of the call.
\<close>

fun lock_inv :: "nat \<Rightarrow> lock_pc \<times> extension_t \<times> bool list \<Rightarrow> bool" where
  "lock_inv me (AtCheck1, e, seen) = (seen = [] \<and> running_lock e \<noteq> Some me)"
| "lock_inv me (AtLock, e, seen) = (seen = [False] \<and> running_lock e \<noteq> Some me)"
| "lock_inv me (AtCheck2, e, seen) = (seen = [False] \<and> running_lock e = Some me)"
| "lock_inv me (AtUnlock, e, seen) = (seen = [False, True] \<and> running_lock e = Some me)"
| "lock_inv me (LockReturn b, e, seen) =
     (if b then seen = [False, False] \<and> running_lock e = Some me
      else (seen = [True] \<or> seen = [False, True]) \<and> running_lock e \<noteq> Some me)"

section \<open>Concrete inputs\<close>

text \<open>An allow-list and an archive library that opens whatever it is asked for.\<close>

definition demo_allowed :: "char \<Rightarrow> bool" where
  "demo_allowed c \<longleftrightarrow>
     c \<in> set ''abcdefghijklmnopqrstuvwxyzABCDEFGHIJKLMNOPQRSTUVWXYZ0123456789:/. _''"

definition demo_access_env :: access_env where
  "demo_access_env =
     \<lparr>ZIP_SEP = ''!/'', allowed_char = demo_allowed, calloc_sys_ok = True,
      malloc_path_ok = True, strdup_path_ok = True, malloc_file_ok = True,
      strdup_file_ok = True, unzOpen2 = (\<lambda>p. True),
      unzLocateFile = (\<lambda>p f. True), unzOpenCurrentFile = (\<lambda>p f. True)\<rparr>"

text \<open>A stream of 100 bytes, at offset 10, on which every seek fails.\<close>

definition demo_stream :: stream_t where
  "demo_stream = \<lparr>s_offset = 10, s_size = 100, s_can_seek = (\<lambda>pos. False)\<rparr>"

text \<open>
  A script with a descriptor, a menu of two entries, a \<open>trigger_menu\<close> that returns
  and a \<open>deactivate\<close> that raises: its globals, the state before it is loaded and
  the state after. In the last state every global is a function that returns.
\<close>

definition demo_menu :: lua_value where
  "demo_menu = LTable 2 [(LNumber 1, LString ''Open''), (LNumber 65537, LString ''Close'')]"

definition demo_descriptor :: lua_value where
  "demo_descriptor =
     LTable 0
       [(LString ''title'', LString ''Demo''),
        (LString ''capabilities'',
         LTable 3 [(LNumber 1, LString ''menu''), (LNumber 2, LString ''bogus''),
                   (LNumber 3, LString ''input-listener'')])]"

definition demo_globals :: "string \<Rightarrow> lua_value" where
  "demo_globals name =
     (if name = ''menu'' then LFunction 0
      else if name = ''descriptor'' then LFunction 1
      else if name = ''trigger_menu'' then LFunction 2
      else if name = ''deactivate'' then LFunction 3
      else LNil)"

definition demo_fresh :: lua_State where
  "demo_fresh = \<lparr>lua_globals = (\<lambda>name. LNil), lua_stack = []\<rparr>"

definition demo_loaded :: lua_State where
  "demo_loaded = \<lparr>lua_globals = demo_globals, lua_stack = []\<rparr>"

definition demo_quiet :: lua_State where
  "demo_quiet = \<lparr>lua_globals = (\<lambda>name. LFunction 2), lua_stack = []\<rparr>"

definition demo_env :: lua_env where
  "demo_env =
     \<lparr>luaL_newstate = Some demo_fresh,
      luaL_dofile = (\<lambda>name l. (False, l\<lparr>lua_globals := demo_globals\<rparr>)),
      luaopen_dialog = (\<lambda>l. l),
      lua_call = (\<lambda>f args g.
        (if f = 0 then Result demo_menu
         else if f = 1 then Result demo_descriptor
         else if f = 3 then Raised (LString ''error'')
         else Result LNil, g)),
      lua_number2str = (\<lambda>n. []),
      lua_str2number = (\<lambda>s. None),
      NDEBUG = False\<rparr>"

text \<open>
  The same script with a descriptor whose one capability name is \<open>menu\<close>, a NUL
  byte and \<open>x\<close>.
\<close>

definition demo_nul_descriptor :: lua_value where
  "demo_nul_descriptor =
     LTable 0
       [(LString ''capabilities'',
         LTable 1 [(LNumber 1, LString (''menu'' @ [CHR 0x00, CHR ''x'']))])]"

definition demo_nul_env :: lua_env where
  "demo_nul_env = demo_env\<lparr>lua_call := (\<lambda>f args g. (Result demo_nul_descriptor, g))\<rparr>"

text \<open>An extension as the scan leaves it, and one whose mutex another thread holds.\<close>

definition demo_ext :: extension_t where
  "demo_ext = new_extension ''demo.lua''"

definition held_ext :: extension_t where
  "held_ext = demo_ext\<lparr>running_lock := Some 1\<rparr>"

section \<open>Properties of the archive access\<close>

subsection \<open>Library functions\<close>

lemma strstr_Some_prefix:
  "strstr hay needle = Some i \<Longrightarrow> i \<le> length hay \<and> prefix needle (drop i hay)"
proof (induction hay arbitrary: i)
  case Nil
  then show ?case by (simp split: if_splits)
next
  case (Cons c hay)
  show ?case
  proof (cases "prefix needle (c # hay)")
    case True
    with Cons.prems show ?thesis by simp
  next
    case False
    with Cons.prems obtain k where k: "strstr hay needle = Some k" "i = Suc k"
      by auto
    with Cons.IH [of k] show ?thesis by simp
  qed
qed

lemma strstr_Some_first:
  "strstr hay needle = Some i \<Longrightarrow> j < i \<Longrightarrow> \<not> prefix needle (drop j hay)"
proof (induction hay arbitrary: i j)
  case Nil
  then show ?case by (simp split: if_splits)
next
  case (Cons c hay)
  show ?case
  proof (cases "prefix needle (c # hay)")
    case True
    with Cons.prems show ?thesis by simp
  next
    case False
    with Cons.prems obtain k where k: "strstr hay needle = Some k" "i = Suc k"
      by auto
    show ?thesis
    proof (cases j)
      case 0
      with False show ?thesis by simp
    next
      case (Suc j')
      with Cons.prems k Cons.IH [of k j'] show ?thesis by simp
    qed
  qed
qed

text \<open>\<open>strstr\<close> finds the needle wherever there is an occurrence.\<close>

lemma strstr_complete:
  "prefix needle (drop j hay) \<Longrightarrow> j \<le> length hay \<Longrightarrow> \<exists>i. strstr hay needle = Some i"
proof (induction hay arbitrary: j)
  case Nil
  then show ?case by simp
next
  case (Cons c hay)
  show ?case
  proof (cases "prefix needle (c # hay)")
    case True
    then show ?thesis by simp
  next
    case False
    with Cons.prems obtain j' where j': "j = Suc j'" by (cases j) auto
    with Cons.prems have "prefix needle (drop j' hay)" "j' \<le> length hay" by simp_all
    from Cons.IH [OF this] False show ?thesis by auto
  qed
qed

lemma strstr_split:
  assumes "strstr hay needle = Some i"
  shows "hay = take i hay @ needle @ drop (i + length needle) hay"
proof -
  from strstr_Some_prefix [OF assms] have "prefix needle (drop i hay)" by simp
  then obtain zs where zs: "drop i hay = needle @ zs" by (auto simp: prefix_def)
  then have "drop (length needle) (drop i hay) = zs" by simp
  then have "drop (i + length needle) hay = zs" by (simp add: add.commute)
  with zs have "drop i hay = needle @ drop (i + length needle) hay" by simp
  then have "take i hay @ drop i hay = take i hay @ needle @ drop (i + length needle) hay"
    by simp
  then show ?thesis by simp
qed

lemma strstr_bound:
  assumes "strstr hay needle = Some i" "needle \<noteq> []"
  shows "i < length hay" "i + length needle \<le> length hay"
proof -
  from strstr_split [OF assms(1)]
  have "length hay = length (take i hay @ needle @ drop (i + length needle) hay)" by simp
  moreover from strstr_Some_prefix [OF assms(1)] have "i \<le> length hay" by simp
  ultimately show "i + length needle \<le> length hay" by simp
  with assms(2) show "i < length hay" by (cases needle) auto
qed

lemma c_string_id: "CHR 0x00 \<notin> set s \<Longrightarrow> c_string s = s"
  by (induction s) (auto simp: c_string_def)

lemma c_string_cut: "CHR 0x00 \<notin> set s \<Longrightarrow> c_string (s @ CHR 0x00 # t) = s"
  by (induction s) (auto simp: c_string_def)

lemma c_string_no_nul: "CHR 0x00 \<notin> set (c_string s)"
  by (induction s) (auto simp: c_string_def)

lemmas unescape_eval = unescapeXml_def unescapeXml_mem_def c_string_def strdup_def
  sscanf_02x_def isspace_def scan_hex2_def hexval_def char_of_def demo_allowed_def

subsection \<open>unescapeXml\<close>

text \<open>
  A text without \<open>?\<close> is copied or refused, whatever lies behind its terminator: it
  is refused as soon as one of its bytes is outside the allow-list, and no part of it is
  returned then.
\<close>

lemma unescapeXml_loop_plain:
  "CHR ''?'' \<notin> set s \<Longrightarrow> CHR 0x00 \<notin> set s \<Longrightarrow> length out + length s < n \<Longrightarrow>
   unescapeXml_loop A (s @ CHR 0x00 # t) out n = Inr None \<or>
   unescapeXml_loop A (s @ CHR 0x00 # t) out n = Inr (Some (c_string (rev out @ s)))"
proof (induction s arbitrary: out)
  case Nil
  then show ?case by simp
next
  case (Cons a s)
  from Cons.prems have a: "a \<noteq> CHR ''?''" "a \<noteq> CHR 0x00"
    and s: "CHR ''?'' \<notin> set s" "CHR 0x00 \<notin> set s" "length (a # out) + length s < n"
    by auto
  from Cons.IH [OF s] a Cons.prems(3) show ?case by auto
qed

lemma unescapeXml_mem_plain:
  assumes "CHR ''?'' \<notin> set s" "CHR 0x00 \<notin> set s"
  shows "unescapeXml_mem A m (s @ CHR 0x00 # t) = Inr None \<or>
         unescapeXml_mem A m (s @ CHR 0x00 # t) = Inr (Some s)"
  using unescapeXml_loop_plain [of s "[]" "length s + 1" A t] assms
  by (auto simp: unescapeXml_mem_def c_string_cut c_string_id)

lemma unescapeXml_plain:
  assumes "CHR ''?'' \<notin> set s" "CHR 0x00 \<notin> set s"
  shows "unescapeXml A m s = Inr None \<or> unescapeXml A m s = Inr (Some s)"
  using unescapeXml_mem_plain [OF assms, of A m "[]"] assms
  by (simp add: unescapeXml_def c_string_id)

lemma unescapeXml_loop_reject:
  "CHR ''?'' \<notin> set s \<Longrightarrow> CHR 0x00 \<notin> set s \<Longrightarrow> length out + length s < n \<Longrightarrow>
   \<exists>c\<in>set s. \<not> A c \<Longrightarrow> unescapeXml_loop A (s @ CHR 0x00 # t) out n = Inr None"
proof (induction s arbitrary: out)
  case Nil
  then show ?case by simp
next
  case (Cons a s)
  show ?case
  proof (cases "A a")
    case False
    with Cons.prems show ?thesis by auto
  next
    case True
    with Cons.prems have "\<exists>c\<in>set s. \<not> A c" by auto
    with Cons.prems Cons.IH [of "a # out"] True show ?thesis by auto
  qed
qed

lemma unescapeXml_rejects_literal:
  assumes "CHR ''?'' \<notin> set s" "CHR 0x00 \<notin> set s" "\<exists>c\<in>set s. \<not> A c"
  shows "unescapeXml A m s = Inr None"
  using assms unescapeXml_loop_reject [of s "[]" "length s + 1" A "[]"]
  by (simp add: unescapeXml_def unescapeXml_mem_def c_string_id c_string_cut)

text \<open>
  The bytes behind the terminator matter only when the text ends inside an escape: as
  long as the loop does not step over the terminator of a text that is an object of its
  own, it does the same on that text in front of any other bytes.
\<close>

lemma unescapeXml_loop_tail:
  assumes "CHR 0x00 \<notin> set s"
    and "unescapeXml_loop A (s @ [CHR 0x00]) out n \<noteq> Inl ReadPastEnd"
  shows "unescapeXml_loop A (s @ CHR 0x00 # t) out n = unescapeXml_loop A (s @ [CHR 0x00]) out n"
  using assms
proof (induction "length s" arbitrary: s out rule: less_induct)
  case less
  show ?case
  proof (cases s)
    case Nil
    then show ?thesis by simp
  next
    case (Cons c rest)
    with less.prems have c: "c \<noteq> CHR 0x00" and rest: "CHR 0x00 \<notin> set rest" by auto
    have cs: "c_string (rest @ CHR 0x00 # t) = c_string (rest @ [CHR 0x00])"
      using rest by (simp add: c_string_cut)
    show ?thesis
    proof (cases "c = CHR ''?''")
      case True
      show ?thesis
      proof (cases "sscanf_02x (c_string (rest @ [CHR 0x00]))")
        case ScanEOF
        with True c Cons cs show ?thesis by simp
      next
        case ScanNoMatch
        with True c Cons cs show ?thesis by simp
      next
        case (ScanOK v)
        show ?thesis
        proof (cases "length out < n")
          case False
          with True c Cons cs ScanOK show ?thesis by simp
        next
          case lt: True
          show ?thesis
          proof (cases rest)
            case Nil
            with less.prems(2) True c Cons ScanOK lt show ?thesis by simp
          next
            case r1: (Cons x rest1)
            show ?thesis
            proof (cases rest1)
              case Nil
              with less.prems(2) True c Cons ScanOK lt r1 show ?thesis by simp
            next
              case r2: (Cons y rest2)
              have ne: "unescapeXml_loop A (rest2 @ [CHR 0x00]) (char_of v # out) n \<noteq>
                  Inl ReadPastEnd"
                using less.prems(2) True c Cons ScanOK lt r1 r2 by simp
              have "unescapeXml_loop A (rest2 @ CHR 0x00 # t) (char_of v # out) n =
                  unescapeXml_loop A (rest2 @ [CHR 0x00]) (char_of v # out) n"
                using rest r1 r2 Cons ne by (intro less.hyps) simp_all
              with True c Cons cs ScanOK lt r1 r2 show ?thesis by simp
            qed
          qed
        qed
      qed
    next
      case False
      show ?thesis
      proof (cases "A c \<and> length out < n")
        case False
        with \<open>c \<noteq> CHR ''?''\<close> c Cons show ?thesis by auto
      next
        case True
        have ne: "unescapeXml_loop A (rest @ [CHR 0x00]) (c # out) n \<noteq> Inl ReadPastEnd"
          using less.prems(2) True \<open>c \<noteq> CHR ''?''\<close> c Cons by simp
        have "unescapeXml_loop A (rest @ CHR 0x00 # t) (c # out) n =
            unescapeXml_loop A (rest @ [CHR 0x00]) (c # out) n"
          using rest Cons ne by (intro less.hyps) simp_all
        with True \<open>c \<noteq> CHR ''?''\<close> c Cons show ?thesis by simp
      qed
    qed
  qed
qed

lemma unescapeXml_mem_tail:
  assumes "CHR 0x00 \<notin> set s" and "unescapeXml A m s \<noteq> Inl ReadPastEnd"
  shows "unescapeXml_mem A m (s @ CHR 0x00 # t) = unescapeXml A m s"
proof (cases m)
  case False
  then show ?thesis
    by (simp add: unescapeXml_def unescapeXml_mem_def)
next
  case True
  with assms have "unescapeXml_loop A (s @ [CHR 0x00]) [] (length s + 1) \<noteq> Inl ReadPastEnd"
    by (simp add: unescapeXml_def unescapeXml_mem_def c_string_id c_string_cut)
  from unescapeXml_loop_tail [OF assms(1) this, of t] True assms(1) show ?thesis
    by (simp add: unescapeXml_def unescapeXml_mem_def c_string_id c_string_cut)
qed

text \<open>
  Claim C6 says that \<open>unescapeXml\<close> returns failure whenever the input holds a byte
  outside the allow-list that is not part of a valid escape of two hexadecimal digits,
  and whenever an escape is cut short or its two characters are not hexadecimal. The code
  does not: in \<open>?4#\<close> the escape has one hexadecimal digit, \<open>#\<close> is not
  one, and whatever the allow-list is the function returns the one byte 4. The second
  character after a \<open>?\<close> is never looked at.
\<close>

theorem unescapeXml_accepts_bad_escape:
  "unescapeXml A True ''?4#'' = Inr (Some [CHR 0x04])"
  by (simp add: unescapeXml_def unescapeXml_mem_def c_string_def sscanf_02x_def isspace_def
      scan_hex2_def hexval_def char_of_def)

text \<open>
  An escape that is cut short is not refused either: with nothing after the \<open>?\<close>
  the conversion reports the end of the input, which the test takes for a success, and
  with one digit after it the iterator leaves the string.
\<close>

lemma unescapeXml_truncated_escape:
  "unescapeXml A True ''?'' = Inl UninitialisedRead"
  "unescapeXml A True ''?4'' = Inl ReadPastEnd"
  by (simp_all add: unescapeXml_def unescapeXml_mem_def c_string_def sscanf_02x_def
      isspace_def scan_hex2_def hexval_def)

text \<open>A first character that cannot start a number is refused.\<close>

lemma unescapeXml_rejects_non_hex:
  "unescapeXml A True ''ab?zz'' = Inr None \<or> \<not> A CHR ''a'' \<or> \<not> A CHR ''b''"
  by (simp add: unescapeXml_def unescapeXml_mem_def c_string_def sscanf_02x_def isspace_def
      scan_hex2_def hexval_def)

subsection \<open>AccessOpen\<close>

lemma AccessOpen_no_sep:
  "strstr (c_string loc) (ZIP_SEP env) = None \<Longrightarrow>
   AccessOpen env loc =
     Inr \<lparr>access_ret = VLC_EGENERIC, psz_pathToZip = None, psz_fileInzip = None,
          zipFile_open = False\<rparr>"
  by (simp add: AccessOpen_def)

text \<open>The object that is split: the archive path, a terminator, the rest.\<close>

lemma split_buffer_head:
  assumes "CHR 0x00 \<notin> set loc" "n < length loc"
  shows "split_buffer loc n = take n loc @ CHR 0x00 # drop (Suc n) loc @ [CHR 0x00]"
  using assms
  by (simp add: split_buffer_def c_string_id list_update_append upd_conv_take_nth_drop)

lemma split_buffer_tail:
  assumes "CHR 0x00 \<notin> set loc" "n < m" "m \<le> length loc"
  shows "drop m (split_buffer loc n) = drop m loc @ [CHR 0x00]"
  using assms by (simp add: split_buffer_def c_string_id drop_update_cancel)

text \<open>
  The split, for a locator whose archive path does not end inside an escape: the
  archive path is the text in front of the first separator and the inner path is the
  text behind it, each unescaped on its own and taken as it is when it cannot be
  unescaped.
\<close>

lemma AccessOpen_components:
  assumes sep: "strstr loc (ZIP_SEP env) = Some n" "ZIP_SEP env \<noteq> []"
    and nul: "CHR 0x00 \<notin> set loc"
    and head: "unescapeXml (allowed_char env) (malloc_path_ok env) (take n loc) \<noteq>
                 Inl ReadPastEnd"
    and res: "AccessOpen env loc = Inr r" "psz_fileInzip r \<noteq> None"
  shows "psz_pathToZip r =
           Some (case unescapeXml (allowed_char env) (malloc_path_ok env) (take n loc) of
                   Inr (Some t) \<Rightarrow> t | _ \<Rightarrow> take n loc)"
    and "psz_fileInzip r =
           Some (case unescapeXml (allowed_char env) (malloc_file_ok env)
                        (drop (n + length (ZIP_SEP env)) loc) of
                   Inr (Some t) \<Rightarrow> t | _ \<Rightarrow> drop (n + length (ZIP_SEP env)) loc)"
proof -
  let ?pre = "take n loc" and ?post = "drop (n + length (ZIP_SEP env)) loc"
  from strstr_bound [OF sep] have b: "n < length loc" "n + length (ZIP_SEP env) \<le> length loc"
    by simp_all
  from sep(2) have pos: "n < n + length (ZIP_SEP env)" by simp
  have pre: "CHR 0x00 \<notin> set ?pre" and post: "CHR 0x00 \<notin> set ?post"
    using nul by (auto dest: in_set_takeD in_set_dropD)
  have buf: "split_buffer loc n = ?pre @ CHR 0x00 # drop (Suc n) loc @ [CHR 0x00]"
    using nul b(1) by (rule split_buffer_head)
  have tl: "drop (n + length (ZIP_SEP env)) (split_buffer loc n) = ?post @ [CHR 0x00]"
    using nul pos b(2) by (rule split_buffer_tail)
  have h: "unescapeXml_mem (allowed_char env) (malloc_path_ok env) (split_buffer loc n) =
           unescapeXml (allowed_char env) (malloc_path_ok env) ?pre"
    using unescapeXml_mem_tail [OF pre head, of "drop (Suc n) loc @ [CHR 0x00]"] buf by simp
  have t: "unescapeXml_mem (allowed_char env) (malloc_file_ok env) (?post @ [CHR 0x00]) =
           unescapeXml (allowed_char env) (malloc_file_ok env) ?post"
    using post by (simp add: unescapeXml_def c_string_id)
  have d1: "strdup (split_buffer loc n) = ?pre"
    using pre buf by (simp add: strdup_def c_string_cut)
  have d2: "strdup (?post @ [CHR 0x00]) = ?post"
    using post by (simp add: strdup_def c_string_cut)
  from res sep(1) nul h t d1 d2 tl
  show "psz_pathToZip r =
           Some (case unescapeXml (allowed_char env) (malloc_path_ok env) ?pre of
                   Inr (Some t) \<Rightarrow> t | _ \<Rightarrow> ?pre)"
    by (auto simp: AccessOpen_def ZIP_SEP_LEN_def Let_def c_string_id
        split: if_splits sum.splits option.splits)
  from res sep(1) nul h t d1 d2 tl
  show "psz_fileInzip r =
           Some (case unescapeXml (allowed_char env) (malloc_file_ok env) ?post of
                   Inr (Some t) \<Rightarrow> t | _ \<Rightarrow> ?post)"
    by (auto simp: AccessOpen_def ZIP_SEP_LEN_def Let_def c_string_id
        split: if_splits sum.splits option.splits)
qed

text \<open>
  For a locator without \<open>?\<close> the split is always made, whatever the allow-list is:
  as soon as the separator occurs and the allocations succeed, the archive library is
  called with the text in front of the first separator and the text behind it.
\<close>

lemma AccessOpen_split_plain:
  assumes occ: "prefix (ZIP_SEP env) (drop j loc)" "j \<le> length loc" "ZIP_SEP env \<noteq> []"
    and plain: "CHR 0x00 \<notin> set loc" "CHR ''?'' \<notin> set loc"
    and alloc: "calloc_sys_ok env" "strdup_path_ok env" "strdup_file_ok env"
  shows "\<exists>n r. strstr loc (ZIP_SEP env) = Some n \<and> n \<le> j \<and> AccessOpen env loc = Inr r \<and>
           psz_pathToZip r = Some (take n loc) \<and>
           psz_fileInzip r = Some (drop (n + length (ZIP_SEP env)) loc)"
proof -
  from strstr_complete [OF occ(1,2)] obtain n where n: "strstr loc (ZIP_SEP env) = Some n"
    by blast
  have nj: "n \<le> j"
  proof (rule ccontr)
    assume "\<not> n \<le> j"
    then have "j < n" by simp
    from strstr_Some_first [OF n this] occ(1) show False by simp
  qed
  let ?pre = "take n loc" and ?post = "drop (n + length (ZIP_SEP env)) loc"
  from strstr_bound [OF n occ(3)]
  have b: "n < length loc" "n + length (ZIP_SEP env) \<le> length loc" by simp_all
  from occ(3) have pos: "n < n + length (ZIP_SEP env)" by simp
  have pre: "CHR 0x00 \<notin> set ?pre" "CHR ''?'' \<notin> set ?pre"
    and post: "CHR 0x00 \<notin> set ?post" "CHR ''?'' \<notin> set ?post"
    using plain by (auto dest: in_set_takeD in_set_dropD)
  have buf: "split_buffer loc n = ?pre @ CHR 0x00 # drop (Suc n) loc @ [CHR 0x00]"
    using plain(1) b(1) by (rule split_buffer_head)
  have tl: "drop (n + length (ZIP_SEP env)) (split_buffer loc n) = ?post @ [CHR 0x00]"
    using plain(1) pos b(2) by (rule split_buffer_tail)
  have h: "unescapeXml_mem (allowed_char env) (malloc_path_ok env) (split_buffer loc n) = Inr None \<or>
           unescapeXml_mem (allowed_char env) (malloc_path_ok env) (split_buffer loc n) =
             Inr (Some ?pre)"
    using unescapeXml_mem_plain [OF pre(2,1), of "allowed_char env" "malloc_path_ok env"
        "drop (Suc n) loc @ [CHR 0x00]"] buf by simp
  have t: "unescapeXml_mem (allowed_char env) (malloc_file_ok env) (?post @ [CHR 0x00]) = Inr None \<or>
           unescapeXml_mem (allowed_char env) (malloc_file_ok env) (?post @ [CHR 0x00]) =
             Inr (Some ?post)"
    using unescapeXml_mem_plain [OF post(2,1), of "allowed_char env" "malloc_file_ok env" "[]"]
    by simp
  have d1: "strdup (split_buffer loc n) = ?pre"
    using pre buf by (simp add: strdup_def c_string_cut)
  have d2: "strdup (?post @ [CHR 0x00]) = ?post"
    using post by (simp add: strdup_def c_string_cut)
  have "\<exists>r. AccessOpen env loc = Inr r \<and> psz_pathToZip r = Some ?pre \<and>
          psz_fileInzip r = Some ?post"
    using h t n plain(1) alloc d1 d2 tl
    by (auto simp: AccessOpen_def ZIP_SEP_LEN_def Let_def c_string_id)
  with n nj show ?thesis by blast
qed

text \<open>The locator of the specification, for the separator \<open>!/\<close>.\<close>

lemma AccessOpen_example:
  assumes "ZIP_SEP env = ''!/''" "calloc_sys_ok env" "strdup_path_ok env" "strdup_file_ok env"
  shows "\<exists>r. AccessOpen env ''/archive.zip!/dir/file.txt'' = Inr r \<and>
             psz_pathToZip r = Some ''/archive.zip'' \<and>
             psz_fileInzip r = Some ''dir/file.txt''"
proof -
  have s: "strstr ''/archive.zip!/dir/file.txt'' ''!/'' = Some 12" by simp
  have "\<exists>n r. strstr ''/archive.zip!/dir/file.txt'' (ZIP_SEP env) = Some n \<and> n \<le> 12 \<and>
      AccessOpen env ''/archive.zip!/dir/file.txt'' = Inr r \<and>
      psz_pathToZip r = Some (take n ''/archive.zip!/dir/file.txt'') \<and>
      psz_fileInzip r = Some (drop (n + length (ZIP_SEP env)) ''/archive.zip!/dir/file.txt'')"
    using assms by (intro AccessOpen_split_plain) simp_all
  with s assms(1) show ?thesis by auto
qed

text \<open>
  Claim C7 says that a locator with the separator is split at its first occurrence into
  the text in front of it and the text behind it, each unescaped on its own. That holds
  as long as the archive path does not end inside an escape (see above). But the two
  parts lie in one object, and \<open>unescapeXml\<close> steps over the terminator that
  replaces the separator's first byte when the archive path ends in a \<open>?\<close> and one
  more byte: for \<open>/a?4!/\<close> the archive library is asked for the archive \<open>/a\<close>,
  byte 4, \<open>/\<close>, whose last byte comes from behind the separator; for
  \<open>/a?4!/x\<close> the function writes behind the end of its output buffer. On its own,
  the archive path \<open>/a?4\<close> makes \<open>unescapeXml\<close> leave the string.
\<close>

theorem AccessOpen_archive_path_reads_on:
  "strstr ''/a?4!/'' (ZIP_SEP demo_access_env) = Some 4 \<and>
   AccessOpen demo_access_env ''/a?4!/'' =
     Inr \<lparr>access_ret = VLC_SUCCESS,
          psz_pathToZip = Some [CHR ''/'', CHR ''a'', CHR 0x04, CHR ''/''],
          psz_fileInzip = Some [], zipFile_open = True\<rparr> \<and>
   AccessOpen demo_access_env ''/a?4!/x'' = Inl OutOfBounds \<and>
   unescapeXml demo_allowed True ''/a?4'' = Inl ReadPastEnd"
  by (simp add: demo_access_env_def AccessOpen_def ZIP_SEP_LEN_def split_buffer_def
      unescapeXml_def unescapeXml_mem_def c_string_def strdup_def sscanf_02x_def isspace_def
      scan_hex2_def hexval_def char_of_def demo_allowed_def)

text \<open>
  The rest of the claim holds: a locator without the separator is refused with the
  generic error before anything is allocated or opened, and an archive path with a
  complete escape is unescaped on its own.
\<close>

lemma AccessOpen_demo:
  "strstr ''/movie.avi'' (ZIP_SEP demo_access_env) = None \<and>
   AccessOpen demo_access_env ''/movie.avi'' =
     Inr \<lparr>access_ret = VLC_EGENERIC, psz_pathToZip = None, psz_fileInzip = None,
          zipFile_open = False\<rparr> \<and>
   AccessOpen demo_access_env ''/my?20archive.zip!/dir/file.txt'' =
     Inr \<lparr>access_ret = VLC_SUCCESS, psz_pathToZip = Some ''/my archive.zip'',
          psz_fileInzip = Some ''dir/file.txt'', zipFile_open = True\<rparr>"
  by (simp add: demo_access_env_def AccessOpen_def ZIP_SEP_LEN_def split_buffer_def
      unescape_eval)

subsection \<open>ZipIO_Seek\<close>

text \<open>
  Claim C8: for the three origins the position is the offset plus the current offset of
  the stream, plus nothing, or plus the size of the stream, in 64-bit arithmetic; a
  position that is negative as a signed number is refused with \<open>-1\<close> and the stream
  is left alone; for any other position the stream is asked to seek there and the result
  is 0, whatever the stream answers.
\<close>

theorem ZipIO_Seek_position:
  "origin \<in> {SEEK_CUR, SEEK_SET, SEEK_END} \<longrightarrow>
   (let pos = (ucast offset :: 64 word) +
                (if origin = SEEK_CUR then vlc_stream_Tell stream
                 else if origin = SEEK_SET then 0 else stream_Size stream)
    in (sint pos < 0 \<longrightarrow> ZipIO_Seek stream offset origin = (- 1, stream)) \<and>
       (0 \<le> sint pos \<longrightarrow>
          fst (ZipIO_Seek stream offset origin) = 0 \<and>
          snd (ZipIO_Seek stream offset origin) = snd (vlc_stream_Seek stream pos)))"
  by (auto simp: ZipIO_Seek_def Let_def SEEK_CUR_def SEEK_SET_def SEEK_END_def)

text \<open>
  On a stream that refuses every seek: five bytes past the end is reported as a success,
  200 bytes in front of the start is refused.
\<close>

theorem ZipIO_Seek_position_witness:
  "SEEK_END \<in> {SEEK_CUR, SEEK_SET, SEEK_END} \<and>
   0 \<le> sint (5 + stream_Size demo_stream) \<and>
   fst (vlc_stream_Seek demo_stream 105) = VLC_EGENERIC \<and>
   ZipIO_Seek demo_stream (5 :: 64 word) SEEK_END = (0, demo_stream) \<and>
   sint (- 200 + stream_Size demo_stream) < 0 \<and>
   ZipIO_Seek demo_stream (- 200 :: 64 word) SEEK_END = (- 1, demo_stream)"
  using ZipIO_Seek_position [of SEEK_END "5 :: 64 word" demo_stream]
    ZipIO_Seek_position [of SEEK_END "- 200 :: 64 word" demo_stream]
  by (simp add: Let_def SEEK_CUR_def SEEK_SET_def SEEK_END_def stream_Size_def demo_stream_def
      vlc_stream_Seek_def prod_eq_iff)

lemma ZipIO_Seek_bad_origin:
  "origin \<notin> {SEEK_CUR, SEEK_SET, SEEK_END} \<Longrightarrow>
   ZipIO_Seek stream offset origin = (- 1, stream)"
  by (simp add: ZipIO_Seek_def)

text \<open>As long as the sum fits 64 bits, the position is the sum of the two as integers.\<close>

lemma seek_position_no_wrap:
  fixes offset base :: "64 word"
  assumes "- (2 ^ 63) \<le> sint offset + sint base" "sint offset + sint base < 2 ^ 63"
  shows "sint (offset + base) = sint offset + sint base"
proof -
  have "sint (offset + base) = signed_take_bit 63 (sint offset + sint base)"
    by (simp add: sint_word_ariths)
  also have "\<dots> = sint offset + sint base"
    using assms by (simp add: signed_take_bit_int_eq_self)
  finally show ?thesis .
qed

section \<open>Properties of the extension manager\<close>

subsection \<open>The running lock\<close>

lemma lock_inv_caller:
  assumes "lock_inv me (pc, e, seen)"
  shows "lock_inv me (fst (LockExtension_step me pc e), snd (LockExtension_step me pc e),
           if reads_flag pc then seen @ [b_exiting e] else seen)"
  using assms
  by (cases pc) (auto simp: vlc_mutex_lock_def vlc_mutex_unlock_def split: option.splits)

lemma lock_inv_other:
  assumes "lock_inv me (pc, e, seen)"
  shows "lock_inv me (pc, env_step me a e, seen)"
  using assms by (cases pc; cases a) auto

lemma lock_inv_run:
  "lock_inv me c \<Longrightarrow> lock_inv me (run_LockExtension me ss c)"
proof (induction ss arbitrary: c)
  case Nil
  then show ?case by simp
next
  case (Cons s ss)
  obtain pc e seen where c: "c = (pc, e, seen)" by (cases c)
  show ?case
  proof (cases s)
    case Caller
    with c Cons.prems Cons.IH [OF lock_inv_caller [of me pc e seen]] show ?thesis by simp
  next
    case (Other a)
    with c Cons.prems Cons.IH [OF lock_inv_other [of me pc e seen a]] show ?thesis by simp
  qed
qed

text \<open>A run of two schedules in a row is the run of the second after the first.\<close>

lemma run_LockExtension_append:
  "run_LockExtension me (ss @ ts) c = run_LockExtension me ts (run_LockExtension me ss c)"
proof (induction ss arbitrary: c)
  case Nil
  then show ?case by simp
next
  case (Cons s ss)
  obtain pc e seen where c: "c = (pc, e, seen)" by (cases c)
  show ?case by (cases s) (simp_all add: c Cons.IH)
qed

text \<open>The other threads neither give the mutex to the caller nor take it from it.\<close>

lemma env_step_mine:
  "running_lock (env_step me a e) = Some me \<longleftrightarrow> running_lock e = Some me"
  by (cases a) auto

text \<open>Once the call has returned, nothing changes its result or who holds the mutex.\<close>

lemma run_returned:
  "\<exists>e2. run_LockExtension me ts (LockReturn b, e, seen) = (LockReturn b, e2, seen) \<and>
        (running_lock e2 = Some me \<longleftrightarrow> running_lock e = Some me)"
proof (induction ts arbitrary: e)
  case Nil
  then show ?case by simp
next
  case (Cons s ts)
  show ?case
  proof (cases s)
    case Caller
    with Cons.IH [of e] show ?thesis by simp
  next
    case (Other a)
    with Cons.IH [of "env_step me a e"] show ?thesis by (simp add: env_step_mine)
  qed
qed

text \<open>
  A caller that has found the flag set after the acquisition returns failure with its
  next step, whatever the other threads do before and after, and does not hold the mutex
  from then on.
\<close>

lemma run_from_unlock:
  assumes "running_lock e = Some me" "Caller \<in> set ts"
  shows "\<exists>e2. run_LockExtension me ts (AtUnlock, e, seen) = (LockReturn False, e2, seen) \<and>
           running_lock e2 \<noteq> Some me"
  using assms
proof (induction ts arbitrary: e)
  case Nil
  then show ?case by simp
next
  case (Cons s ts)
  show ?case
  proof (cases s)
    case Caller
    from run_returned [of me ts False "vlc_mutex_unlock e" seen] Caller show ?thesis
      by (auto simp: vlc_mutex_unlock_def)
  next
    case (Other a)
    with Cons.prems have "running_lock (env_step me a e) = Some me" "Caller \<in> set ts"
      by (simp_all add: env_step_mine)
    from Cons.IH [OF this] Other show ?thesis by simp
  qed
qed

lemma run_from_check2_set:
  assumes "running_lock e = Some me" "b_exiting e" "Caller \<in> set ts"
  shows "\<exists>e2. run_LockExtension me (Caller # ts) (AtCheck2, e, seen) =
             (LockReturn False, e2, seen @ [True]) \<and>
           running_lock e2 \<noteq> Some me"
  using run_from_unlock [OF assms(1,3), of "seen @ [True]"] assms(2) by simp

lemma run_from_check2_clear:
  assumes "running_lock e = Some me" "\<not> b_exiting e"
  shows "\<exists>e2. run_LockExtension me (Caller # ts) (AtCheck2, e, seen) =
             (LockReturn True, e2, seen @ [False]) \<and>
           running_lock e2 = Some me"
  using run_returned [of me ts True e "seen @ [False]"] assms by auto

text \<open>The call when no other thread runs in between.\<close>

lemma LockExtension_exiting: "b_exiting e \<Longrightarrow> LockExtension me e = Some (False, e)"
  by (simp add: LockExtension_def)

lemma LockExtension_free:
  "\<not> b_exiting e \<Longrightarrow> running_lock e = None \<Longrightarrow>
   LockExtension me e = Some (True, e\<lparr>running_lock := Some me\<rparr>)"
  by (simp add: LockExtension_def vlc_mutex_lock_def)

lemma LockExtension_held:
  "\<not> b_exiting e \<Longrightarrow> running_lock e = Some t \<Longrightarrow> LockExtension me e = None"
  by (simp add: LockExtension_def vlc_mutex_lock_def)

text \<open>
  Claim C3: a call that finds the exiting flag set fails and leaves the caller without
  the running lock. First test: when the flag is set, the first step of the call returns
  failure and does not touch the mutex. Second test: when the caller has the mutex and
  the flag is set at its second test, the call returns failure with the caller's next
  step, and the caller does not hold the mutex any more, whatever the other threads do
  in between and afterwards. In general, for a caller that did not hold the mutex when
  it called and under any schedule of the other threads: as soon as one of the two tests
  has read the flag as set, every continuation of the run in which the caller gets a
  step ends in the returned failure with the mutex not held by the caller; and no run
  that has read the flag as set has returned success or left the caller with the mutex.
\<close>

theorem LockExtension_fails_when_exiting:
  "(b_exiting e0 \<longrightarrow> LockExtension_step me AtCheck1 e0 = (LockReturn False, e0)) \<and>
   (running_lock e1 = Some me \<and> b_exiting e1 \<and> Caller \<in> set ts1 \<longrightarrow>
    (\<exists>e2. run_LockExtension me (Caller # ts1) (AtCheck2, e1, seen1) =
            (LockReturn False, e2, seen1 @ [True]) \<and>
          running_lock e2 \<noteq> Some me)) \<and>
   (running_lock e \<noteq> Some me \<and>
    run_LockExtension me ss (AtCheck1, e, []) = (pc, e', seen) \<and>
    True \<in> set seen \<and> Caller \<in> set ts \<longrightarrow>
    (\<exists>e2. run_LockExtension me (ss @ ts) (AtCheck1, e, []) = (LockReturn False, e2, seen) \<and>
          running_lock e2 \<noteq> Some me)) \<and>
   (running_lock e \<noteq> Some me \<and>
    run_LockExtension me ss (AtCheck1, e, []) = (LockReturn r, e', seen) \<and>
    True \<in> set seen \<longrightarrow>
    \<not> r \<and> running_lock e' \<noteq> Some me)"
proof (intro conjI impI)
  assume "b_exiting e0"
  then show "LockExtension_step me AtCheck1 e0 = (LockReturn False, e0)" by simp
next
  assume "running_lock e1 = Some me \<and> b_exiting e1 \<and> Caller \<in> set ts1"
  then show "\<exists>e2. run_LockExtension me (Caller # ts1) (AtCheck2, e1, seen1) =
            (LockReturn False, e2, seen1 @ [True]) \<and>
          running_lock e2 \<noteq> Some me"
    by (intro run_from_check2_set) simp_all
next
  assume a: "running_lock e \<noteq> Some me \<and>
    run_LockExtension me ss (AtCheck1, e, []) = (pc, e', seen) \<and>
    True \<in> set seen \<and> Caller \<in> set ts"
  then have "lock_inv me (AtCheck1, e, [])" by simp
  from lock_inv_run [OF this, of ss] a have i: "lock_inv me (pc, e', seen)" by simp
  have app: "run_LockExtension me (ss @ ts) (AtCheck1, e, []) =
      run_LockExtension me ts (pc, e', seen)"
    using a by (simp add: run_LockExtension_append)
  show "\<exists>e2. run_LockExtension me (ss @ ts) (AtCheck1, e, []) = (LockReturn False, e2, seen) \<and>
          running_lock e2 \<noteq> Some me"
  proof (cases pc)
    case AtUnlock
    with i a have "running_lock e' = Some me" "Caller \<in> set ts" by simp_all
    from run_from_unlock [OF this, of seen] AtUnlock app show ?thesis by simp
  next
    case (LockReturn b)
    with i a have b: "\<not> b" "running_lock e' \<noteq> Some me" by (auto split: if_splits)
    from run_returned [of me ts False e' seen] b LockReturn app show ?thesis by auto
  qed (use i a in auto)
next
  assume a: "running_lock e \<noteq> Some me \<and>
    run_LockExtension me ss (AtCheck1, e, []) = (LockReturn r, e', seen) \<and>
    True \<in> set seen"
  then have "lock_inv me (AtCheck1, e, [])" by simp
  from lock_inv_run [OF this, of ss] a have i: "lock_inv me (LockReturn r, e', seen)" by simp
  from i a show "\<not> r" by (cases r) auto
  from i a show "running_lock e' \<noteq> Some me" by (cases r) auto
qed

text \<open>
  The flag set at the call; the flag set at the second test of a caller that has the
  mutex, which another thread takes after the caller has given it back; and the flag set
  between the first test and the acquisition of a free mutex, where the second test has
  read it and the caller's next step returns.
\<close>

theorem LockExtension_fails_when_exiting_witness:
  "b_exiting (demo_ext\<lparr>b_exiting := True\<rparr>) \<and>
   LockExtension_step 0 AtCheck1 (demo_ext\<lparr>b_exiting := True\<rparr>) =
     (LockReturn False, demo_ext\<lparr>b_exiting := True\<rparr>) \<and>
   run_LockExtension 0 [Caller, Other (SetExiting False), Caller, Other (OtherLock 1)]
     (AtCheck2, demo_ext\<lparr>b_exiting := True, running_lock := Some 0\<rparr>, [False]) =
     (LockReturn False, demo_ext\<lparr>running_lock := Some 1\<rparr>, [False, True]) \<and>
   run_LockExtension 0 [Caller, Other (SetExiting True), Caller, Caller]
     (AtCheck1, demo_ext, []) =
     (AtUnlock, demo_ext\<lparr>b_exiting := True, running_lock := Some 0\<rparr>, [False, True]) \<and>
   run_LockExtension 0 ([Caller, Other (SetExiting True), Caller, Caller] @ [Caller])
     (AtCheck1, demo_ext, []) =
     (LockReturn False, demo_ext\<lparr>b_exiting := True\<rparr>, [False, True]) \<and>
   running_lock (demo_ext\<lparr>b_exiting := True\<rparr>) \<noteq> Some 0"
  using LockExtension_fails_when_exiting [where ?e0.0 = "demo_ext\<lparr>b_exiting := True\<rparr>"
      and me = 0 and ?e1.0 = "demo_ext\<lparr>b_exiting := True, running_lock := Some 0\<rparr>"
      and ?ts1.0 = "[Other (SetExiting False), Caller, Other (OtherLock 1)]"
      and ?seen1.0 = "[False]" and e = demo_ext
      and ss = "[Caller, Other (SetExiting True), Caller, Caller]"
      and pc = AtUnlock and e' = "demo_ext\<lparr>b_exiting := True, running_lock := Some 0\<rparr>"
      and seen = "[False, True]" and ts = "[Caller]" and r = False]
  by (simp add: demo_ext_def new_extension_def vlc_mutex_lock_def vlc_mutex_unlock_def)

text \<open>
  Claim C4 says that a thread that entered \<open>LockExtension\<close> while the flag was clear
  and waits for the mutex succeeds once it has it, even if the flag was set while it
  waited. In the run below the caller reads the flag as clear and waits for the mutex
  another thread holds; the flag is set; the other thread releases the mutex; the caller
  acquires it, tests the flag again, releases the mutex and returns failure.
\<close>

theorem LockExtension_blocked_caller_refused:
  "run_LockExtension 0 [Caller, Caller] (AtCheck1, held_ext, []) =
     (AtLock, held_ext, [False]) \<and>
   run_LockExtension 0
     [Caller, Caller, Other (SetExiting True), Other (OtherUnlock 1), Caller]
     (AtCheck1, held_ext, []) =
     (AtCheck2, held_ext\<lparr>b_exiting := True, running_lock := Some 0\<rparr>, [False]) \<and>
   run_LockExtension 0
     [Caller, Caller, Other (SetExiting True), Other (OtherUnlock 1), Caller, Caller, Caller]
     (AtCheck1, held_ext, []) =
     (LockReturn False, held_ext\<lparr>b_exiting := True, running_lock := None\<rparr>, [False, True])"
  by (simp add: held_ext_def demo_ext_def new_extension_def vlc_mutex_lock_def
      vlc_mutex_unlock_def)

text \<open>
  Claim C4 as the code has it. A caller that has read the flag as clear at the entry and
  waits for the mutex acquires it with its first step at which the mutex is free, and
  tests the flag again with its next step. If the flag is clear at that second test,
  the call returns success with that step and the caller holds the mutex, whatever
  happens to the flag afterwards. If the flag is set at that second test, the caller
  releases the mutex with its next step and the call returns failure, and the caller
  does not hold the mutex from then on. And in every run of a call by a caller that did
  not hold the mutex, under any schedule: a call that has returned has succeeded exactly
  when both tests read the flag as clear; after a success the caller holds the mutex,
  after a failure it does not.
\<close>

theorem LockExtension_succeeds_iff:
  "(running_lock e0 = None \<longrightarrow>
      LockExtension_step me AtLock e0 = (AtCheck2, e0\<lparr>running_lock := Some me\<rparr>)) \<and>
   (running_lock e1 = Some me \<and> \<not> b_exiting e1 \<longrightarrow>
      (\<exists>e2. run_LockExtension me (Caller # ts1) (AtCheck2, e1, [False]) =
              (LockReturn True, e2, [False, False]) \<and>
            running_lock e2 = Some me)) \<and>
   (running_lock e3 = Some me \<and> b_exiting e3 \<and> Caller \<in> set ts3 \<longrightarrow>
      (\<exists>e4. run_LockExtension me (Caller # ts3) (AtCheck2, e3, [False]) =
              (LockReturn False, e4, [False, True]) \<and>
            running_lock e4 \<noteq> Some me)) \<and>
   (running_lock e \<noteq> Some me \<and>
    run_LockExtension me ss (AtCheck1, e, []) = (LockReturn r, e', seen) \<longrightarrow>
      (r \<longleftrightarrow> seen = [False, False]) \<and> (r \<longleftrightarrow> running_lock e' = Some me))"
proof (intro conjI impI)
  assume "running_lock e0 = None"
  then show "LockExtension_step me AtLock e0 = (AtCheck2, e0\<lparr>running_lock := Some me\<rparr>)"
    by (simp add: vlc_mutex_lock_def)
next
  assume "running_lock e1 = Some me \<and> \<not> b_exiting e1"
  then have "\<exists>e2. run_LockExtension me (Caller # ts1) (AtCheck2, e1, [False]) =
              (LockReturn True, e2, [False] @ [False]) \<and>
            running_lock e2 = Some me"
    by (intro run_from_check2_clear) simp_all
  then show "\<exists>e2. run_LockExtension me (Caller # ts1) (AtCheck2, e1, [False]) =
              (LockReturn True, e2, [False, False]) \<and>
            running_lock e2 = Some me"
    by simp
next
  assume "running_lock e3 = Some me \<and> b_exiting e3 \<and> Caller \<in> set ts3"
  then have "\<exists>e4. run_LockExtension me (Caller # ts3) (AtCheck2, e3, [False]) =
              (LockReturn False, e4, [False] @ [True]) \<and>
            running_lock e4 \<noteq> Some me"
    by (intro run_from_check2_set) simp_all
  then show "\<exists>e4. run_LockExtension me (Caller # ts3) (AtCheck2, e3, [False]) =
              (LockReturn False, e4, [False, True]) \<and>
            running_lock e4 \<noteq> Some me"
    by simp
next
  assume a: "running_lock e \<noteq> Some me \<and>
    run_LockExtension me ss (AtCheck1, e, []) = (LockReturn r, e', seen)"
  then have "lock_inv me (AtCheck1, e, [])" by simp
  from lock_inv_run [OF this, of ss] a have i: "lock_inv me (LockReturn r, e', seen)" by simp
  then show "r \<longleftrightarrow> seen = [False, False]" by (cases r) auto
  from i show "r \<longleftrightarrow> running_lock e' = Some me" by (cases r) auto
qed

text \<open>
  A caller that waits and gets the mutex. With the flag clear at the second test it
  succeeds, and the flag set afterwards changes nothing. With the flag set at the
  second test it gives the mutex back and fails. And with the flag set and cleared
  again while the caller waits, the call succeeds.
\<close>

theorem LockExtension_succeeds_iff_witness:
  "running_lock demo_ext = None \<and>
   LockExtension_step 0 AtLock demo_ext = (AtCheck2, demo_ext\<lparr>running_lock := Some 0\<rparr>) \<and>
   run_LockExtension 0 [Caller, Other (SetExiting True)]
     (AtCheck2, demo_ext\<lparr>running_lock := Some 0\<rparr>, [False]) =
     (LockReturn True, demo_ext\<lparr>b_exiting := True, running_lock := Some 0\<rparr>,
      [False, False]) \<and>
   run_LockExtension 0 [Caller, Caller]
     (AtCheck2, demo_ext\<lparr>b_exiting := True, running_lock := Some 0\<rparr>, [False]) =
     (LockReturn False, demo_ext\<lparr>b_exiting := True\<rparr>, [False, True]) \<and>
   running_lock held_ext \<noteq> Some 0 \<and>
   run_LockExtension 0
     [Caller, Caller, Other (SetExiting True), Other (SetExiting False),
      Other (OtherUnlock 1), Caller, Caller]
     (AtCheck1, held_ext, []) =
     (LockReturn True, held_ext\<lparr>running_lock := Some 0\<rparr>, [False, False])"
  using LockExtension_succeeds_iff [where ?e0.0 = demo_ext and me = 0
      and ?e1.0 = "demo_ext\<lparr>running_lock := Some 0\<rparr>"
      and ?ts1.0 = "[Other (SetExiting True)]"
      and ?e3.0 = "demo_ext\<lparr>b_exiting := True, running_lock := Some 0\<rparr>"
      and ?ts3.0 = "[Caller]" and e = held_ext
      and ss = "[Caller, Caller, Other (SetExiting True), Other (SetExiting False),
                 Other (OtherUnlock 1), Caller, Caller]"
      and r = True and e' = "held_ext\<lparr>running_lock := Some 0\<rparr>" and seen = "[False, False]"]
  by (simp add: held_ext_def demo_ext_def new_extension_def vlc_mutex_lock_def
      vlc_mutex_unlock_def)

subsection \<open>Deactivation and the menu trigger\<close>

lemma GetLuaState_live: "sys_L p_ext = Some l \<Longrightarrow> GetLuaState env p_ext = (Some l, p_ext)"
  by (simp add: GetLuaState_def)

lemma lua_ExecuteFunction_live:
  assumes "sys_L p_ext = Some l"
  shows "\<exists>i_ret l'. lua_ExecuteFunction env p_ext psz_function =
           Inr (i_ret, p_ext\<lparr>sys_L := Some l'\<rparr>)"
  using GetLuaState_live [OF assms, of env]
  by (cases "lua_pcall env (lua_getglobal l psz_function) 0")
    (auto simp: lua_ExecuteFunction_def Let_def split: bool.splits)

text \<open>
  Claim C2: \<open>lua_ExtensionDeactivate\<close> returns, and the extension holds no Lua state
  afterwards, whatever the script's \<open>deactivate\<close> is and does: absent, raising, or
  returning.
\<close>

theorem lua_ExtensionDeactivate_releases:
  "\<exists>i_ret e'. lua_ExtensionDeactivate env p_ext = Inr (i_ret, e') \<and> sys_L e' = None"
proof (cases "sys_L p_ext")
  case None
  then show ?thesis by (simp add: lua_ExtensionDeactivate_def)
next
  case (Some l)
  from lua_ExecuteFunction_live [OF this, of env "''deactivate''"]
  obtain i_ret l' where
    "lua_ExecuteFunction env p_ext ''deactivate'' = Inr (i_ret, p_ext\<lparr>sys_L := Some l'\<rparr>)"
    by blast
  with Some show ?thesis
    by (simp add: lua_ExtensionDeactivate_def lua_close_def)
qed

text \<open>
  A \<open>deactivate\<close> that raises, a script without \<open>deactivate\<close>, and a
  \<open>deactivate\<close> that returns.
\<close>

theorem lua_ExtensionDeactivate_releases_witness:
  "lua_ExtensionDeactivate demo_env (demo_ext\<lparr>sys_L := Some demo_loaded\<rparr>) =
     Inr (VLC_EGENERIC, demo_ext) \<and>
   lua_ExtensionDeactivate demo_env (demo_ext\<lparr>sys_L := Some demo_fresh\<rparr>) =
     Inr (VLC_EGENERIC, demo_ext) \<and>
   lua_ExtensionDeactivate demo_env (demo_ext\<lparr>sys_L := Some demo_quiet\<rparr>) =
     Inr (VLC_SUCCESS, demo_ext) \<and>
   sys_L demo_ext = None"
  using lua_ExtensionDeactivate_releases [of demo_env "demo_ext\<lparr>sys_L := Some demo_loaded\<rparr>"]
  by (simp add: lua_ExtensionDeactivate_def lua_ExecuteFunction_def GetLuaState_def Let_def
      lua_getglobal_def lua_push_def lua_index_def lua_isfunction_def lua_pcall_def
      lua_close_def demo_env_def demo_loaded_def demo_fresh_def demo_quiet_def
      demo_globals_def demo_ext_def new_extension_def)

text \<open>
  Claim C9: \<open>lua_ExtensionTriggerMenu\<close> returns the generic error on every path. Its
  result variable is set to that code at the start and never assigned again, so the path
  on which \<open>trigger_menu\<close> is found and returns ends with it as well.
\<close>

theorem lua_ExtensionTriggerMenu_fails:
  "fst (lua_ExtensionTriggerMenu env p_ext i_id) = VLC_EGENERIC"
  by (simp add: lua_ExtensionTriggerMenu_def Let_def
      split: prod.splits option.splits bool.splits)

text \<open>The script's \<open>trigger_menu\<close> is called with the identifier and returns.\<close>

theorem lua_ExtensionTriggerMenu_fails_witness:
  "lua_pcall demo_env
     (lua_push (lua_getglobal demo_loaded ''trigger_menu'') (LNumber 7)) 1 =
     (False, demo_loaded\<lparr>lua_stack := [LNil]\<rparr>) \<and>
   lua_ExtensionTriggerMenu demo_env (demo_ext\<lparr>sys_L := Some demo_loaded\<rparr>) 7 =
     (VLC_EGENERIC, demo_ext\<lparr>sys_L := Some (demo_loaded\<lparr>lua_stack := [LNil]\<rparr>)\<rparr>)"
  using lua_ExtensionTriggerMenu_fails [of demo_env "demo_ext\<lparr>sys_L := Some demo_loaded\<rparr>" 7]
  by (simp add: lua_ExtensionTriggerMenu_def GetLuaState_def Let_def
      lua_getglobal_def lua_push_def lua_index_def lua_isfunction_def lua_pcall_def
      demo_env_def demo_loaded_def demo_globals_def demo_ext_def new_extension_def)

subsection \<open>GetMenuEntries\<close>

text \<open>
  An extension without the menu flag never gets a menu: unless the call waits for the
  mutex, it returns the generic error and no array.
\<close>

lemma GetLuaState_capabilities:
  "i_capabilities (snd (GetLuaState env e)) = i_capabilities e"
  by (auto simp: GetLuaState_def split: option.splits prod.splits bool.splits)

lemma GetMenuEntries_without_menu:
  assumes "i_capabilities p_ext AND EXT_HAS_MENU = 0"
  shows "GetMenuEntries env me activated p_ext = Inl Blocked \<or>
         (\<exists>e'. GetMenuEntries env me activated p_ext =
            Inr \<lparr>m_ret = VLC_EGENERIC, m_ext = e', pppsz_titles = None, ppi_ids = None\<rparr>)"
proof (cases "b_exiting p_ext")
  case True
  then show ?thesis by (simp add: GetMenuEntries_def LockExtension_exiting)
next
  case False
  show ?thesis
  proof (cases "running_lock p_ext")
    case None
    with False assms GetLuaState_capabilities [of env "p_ext\<lparr>running_lock := Some me\<rparr>"]
    show ?thesis
      by (cases "GetLuaState env (p_ext\<lparr>running_lock := Some me\<rparr>)")
        (simp add: GetMenuEntries_def LockExtension_free)
  next
    case (Some t)
    with False show ?thesis by (simp add: GetMenuEntries_def LockExtension_held)
  qed
qed

text \<open>
  But the state is fetched before the flag is tested: when the extension is activated,
  is not exiting and holds no Lua state yet, the call makes a new state, runs the script
  in it and leaves it in the extension.
\<close>

lemma GetMenuEntries_without_menu_new_state:
  assumes "i_capabilities p_ext AND EXT_HAS_MENU = 0"
    and "\<not> b_exiting p_ext" and "running_lock p_ext = None" and "sys_L p_ext = None"
    and "luaL_newstate env = Some l0" and "luaL_dofile env (psz_name p_ext) l0 = (False, l1)"
  shows "GetMenuEntries env me True p_ext =
           Inr \<lparr>m_ret = VLC_EGENERIC, m_ext = p_ext\<lparr>sys_L := Some l1\<rparr>,
                pppsz_titles = None, ppi_ids = None\<rparr>"
  using assms
  by (simp add: GetMenuEntries_def LockExtension_free GetLuaState_def UnlockExtension_def
      vlc_mutex_unlock_def)

text \<open>
  Claim C1 says that \<open>GetMenuEntries\<close> on an extension without the menu flag returns
  an error without creating or calling into a Lua state. The error is returned, but for
  the extension below, which has no flag and no Lua state and has just been activated,
  the call returns with the script loaded into a new state that the extension now holds.
\<close>

theorem GetMenuEntries_without_menu_loads_script:
  "i_capabilities demo_ext AND EXT_HAS_MENU = 0 \<and>
   sys_L demo_ext = None \<and>
   GetMenuEntries demo_env 0 True demo_ext =
     Inr \<lparr>m_ret = VLC_EGENERIC, m_ext = demo_ext\<lparr>sys_L := Some demo_loaded\<rparr>,
          pppsz_titles = None, ppi_ids = None\<rparr>"
  by (simp add: GetMenuEntries_def LockExtension_def vlc_mutex_lock_def GetLuaState_def
      UnlockExtension_def vlc_mutex_unlock_def new_extension_def demo_env_def demo_fresh_def
      demo_loaded_def demo_ext_def EXT_HAS_MENU_def)










subsection \<open>The capabilities of a scanned script\<close>

lemma capability_flag_values:
  "capability_flag ''menu'' = 1" "capability_flag ''trigger'' = 2"
  "capability_flag ''input-listener'' = 4"
  "name \<notin> set ppsz_capabilities \<Longrightarrow> capability_flag name = 0"
  by (simp_all add: capability_flag_def ppsz_capabilities_def EXT_HAS_MENU_def
      EXT_TRIGGER_ONLY_def EXT_INPUT_LISTENER_def)

text \<open>
  The search sets the flag of the name as \<open>strcmp\<close> reads it: the bytes in front of
  its first NUL.
\<close>

lemma find_capability_vocabulary:
  "fst (find_capability ppsz_capabilities 0 psz_cap caps) =
   caps OR capability_flag (c_string psz_cap)"
proof -
  have w: "c_string ''menu'' = ''menu''" "c_string ''trigger'' = ''trigger''"
    "c_string ''input-listener'' = ''input-listener''"
    by (simp_all add: c_string_def)
  have "strcmp_eq ''menu'' psz_cap \<longleftrightarrow> c_string psz_cap = ''menu''"
    "strcmp_eq ''trigger'' psz_cap \<longleftrightarrow> c_string psz_cap = ''trigger''"
    "strcmp_eq ''input-listener'' psz_cap \<longleftrightarrow> c_string psz_cap = ''input-listener''"
    unfolding strcmp_eq_def w by auto
  then show ?thesis
    by (simp add: ppsz_capabilities_def capability_flag_def EXT_HAS_MENU_def
        EXT_TRIGGER_ONLY_def EXT_INPUT_LISTENER_def)
qed

lemma scan_capabilities_names:
  "scan_capabilities env (map (\<lambda>(k, name). (k, LString name)) cs) caps =
   Inr (fold (\<lambda>name caps. caps OR capability_flag name) (map (\<lambda>(k, name). c_string name) cs)
          caps)"
proof (induction cs arbitrary: caps)
  case Nil
  then show ?case by simp
next
  case (Cons c cs)
  obtain k name where c: "c = (k, name)" by (cases c)
  show ?case
    by (simp add: c luaL_checkstring_def find_capability_vocabulary Cons.IH)
qed

text \<open>
  Claim C5 says that the flags of the catalog entry are the bitwise or of the flags of
  the names of the capabilities list that are in the vocabulary, and that names outside
  the vocabulary give no bit. The descriptor below has the one name \<open>menu\<close>, NUL,
  \<open>x\<close>, which is not in the vocabulary, and its entry has the menu flag: the code
  compares the names with \<open>strcmp\<close>, which stops at the NUL.
\<close>

theorem ScanLuaCallback_name_with_nul:
  "''menu'' @ [CHR 0x00, CHR ''x''] \<notin> set ppsz_capabilities \<and>
   spec_capabilities [''menu'' @ [CHR 0x00, CHR ''x'']] = 0 \<and>
   ScanLuaCallback demo_nul_env True True \<lparr>extensions = []\<rparr> ''demo.lua'' demo_fresh
     (Some True) =
     Inr (- 1,
          \<lparr>extensions = [demo_ext\<lparr>psz_title := Some ''demo.lua'',
                                    i_capabilities := EXT_HAS_MENU\<rparr>]\<rparr>,
          demo_loaded\<lparr>lua_stack := [demo_nul_descriptor]\<rparr>)"
  by (simp add: ScanLuaCallback_def Let_def demo_nul_env_def demo_env_def demo_fresh_def
      demo_loaded_def demo_globals_def demo_nul_descriptor_def demo_ext_def new_extension_def
      lua_getglobal_def lua_push_def lua_index_def lua_isfunction_def lua_pcall_def
      lua_gettop_def lua_istable_def lua_field_def lua_entries_def luaL_checkstring_def
      lua_isstring_def descriptor_string_def ppsz_capabilities_def strcmp_eq_def c_string_def
      spec_capabilities_def capability_flag_def EXT_HAS_MENU_def EXT_TRIGGER_ONLY_def
      EXT_INPUT_LISTENER_def)

text \<open>
  Claim C5 as the code has it: when the script loads and its \<open>descriptor\<close> returns
  a table whose \<open>capabilities\<close> field is a table of names, \<open>ScanLuaCallback\<close>
  appends one entry to the catalog, and the flags of that entry are the bitwise or of
  the flags of the names, each read as a C string (up to its first NUL byte), that are
  in the vocabulary, each at its position there; the other names add nothing.
\<close>

theorem ScanLuaCallback_capabilities:
  assumes "luaL_dofile env psz_script L0 = (False, L1)"
    and "lua_globals L1 ''descriptor'' = LFunction f"
    and "lua_call env f [] (lua_globals L1) = (Result (LTable n descr), g)"
    and "map_of descr (LString ''capabilities'') =
           Some (LTable m (map (\<lambda>(k, name). (k, LString name)) cs))"
  shows "\<exists>r e L'. ScanLuaCallback env True True p_mgr psz_script L0 pb =
           Inr (r, p_mgr\<lparr>extensions := extensions p_mgr @ [e]\<rparr>, L') \<and>
         psz_name e = psz_script \<and>
         i_capabilities e = spec_capabilities (map (\<lambda>(k, name). c_string name) cs)"
proof -
  let ?L2 = "lua_getglobal L1 ''descriptor''"
  have top: "lua_index ?L2 1 = LFunction f"
    using assms(2) by (simp add: lua_getglobal_def lua_push_def lua_index_def)
  have call: "lua_pcall env ?L2 0 =
      (False, \<lparr>lua_globals = g, lua_stack = LTable n descr # lua_stack L1\<rparr>)"
    using assms(2,3) by (simp add: lua_pcall_def lua_getglobal_def lua_push_def lua_index_def)
  show ?thesis
    using assms(1,4) top call
    by (simp add: ScanLuaCallback_def Let_def lua_isfunction_def lua_gettop_def lua_index_def
        lua_istable_def lua_field_def lua_entries_def scan_capabilities_names
        spec_capabilities_def new_extension_def)
      (rule exI, rule conjI, rule refl, simp)
qed

text \<open>
  A descriptor without a table of capabilities gives an entry without flags, and a value
  in that table that is neither a string nor a number stops the scan in the interpreter's
  panic.
\<close>

lemma ScanLuaCallback_no_capabilities:
  assumes "luaL_dofile env psz_script L0 = (False, L1)"
    and "lua_globals L1 ''descriptor'' = LFunction f"
    and "lua_call env f [] (lua_globals L1) = (Result (LTable n descr), g)"
    and "\<not> lua_istable (lua_field (LTable n descr) ''capabilities'')"
  shows "\<exists>r e L'. ScanLuaCallback env True True p_mgr psz_script L0 pb =
           Inr (r, p_mgr\<lparr>extensions := extensions p_mgr @ [e]\<rparr>, L') \<and>
         i_capabilities e = 0"
proof -
  let ?L2 = "lua_getglobal L1 ''descriptor''"
  have top: "lua_index ?L2 1 = LFunction f"
    using assms(2) by (simp add: lua_getglobal_def lua_push_def lua_index_def)
  have call: "lua_pcall env ?L2 0 =
      (False, \<lparr>lua_globals = g, lua_stack = LTable n descr # lua_stack L1\<rparr>)"
    using assms(2,3) by (simp add: lua_pcall_def lua_getglobal_def lua_push_def lua_index_def)
  show ?thesis
    using assms(1,4) top call
    by (simp add: ScanLuaCallback_def Let_def lua_isfunction_def lua_gettop_def lua_index_def
        lua_istable_def new_extension_def)
      (rule exI, rule conjI, rule refl, simp)
qed

lemma scan_capabilities_not_a_string:
  "scan_capabilities env [(k, LBoolean b)] caps = Inl LuaPanic"
  by (simp add: luaL_checkstring_def)

text \<open>
  The script above names \<open>menu\<close>, \<open>bogus\<close> and \<open>input-listener\<close>: its
  entry has the flags 1 and 4.
\<close>

theorem ScanLuaCallback_capabilities_witness:
  "ScanLuaCallback demo_env True True \<lparr>extensions = []\<rparr> ''demo.lua'' demo_fresh (Some True) =
     Inr (- 1,
          \<lparr>extensions = [demo_ext\<lparr>psz_title := Some ''Demo'', i_capabilities := 5\<rparr>]\<rparr>,
          demo_loaded\<lparr>lua_stack := [demo_descriptor]\<rparr>) \<and>
   spec_capabilities
     (map (\<lambda>(k, name). c_string name)
        [(LNumber 1, ''menu''), (LNumber 2, ''bogus''), (LNumber 3, ''input-listener'')]) = 5"
  using ScanLuaCallback_capabilities [of demo_env "''demo.lua''" demo_fresh
      "demo_fresh\<lparr>lua_globals := demo_globals\<rparr>" 1 0
      "[(LString ''title'', LString ''Demo''),
        (LString ''capabilities'',
         LTable 3 [(LNumber 1, LString ''menu''), (LNumber 2, LString ''bogus''),
                   (LNumber 3, LString ''input-listener'')])]"
      demo_globals 3
      "[(LNumber 1, ''menu''), (LNumber 2, ''bogus''), (LNumber 3, ''input-listener'')]"
      "\<lparr>extensions = []\<rparr>" "Some True"]
  by (simp add: ScanLuaCallback_def Let_def demo_env_def demo_fresh_def demo_loaded_def
      demo_globals_def demo_descriptor_def demo_ext_def new_extension_def
      lua_getglobal_def lua_push_def lua_index_def lua_isfunction_def lua_pcall_def
      lua_gettop_def lua_istable_def lua_field_def lua_entries_def luaL_checkstring_def
      lua_isstring_def descriptor_string_def ppsz_capabilities_def strcmp_eq_def strdup_def
      c_string_def spec_capabilities_def capability_flag_def EXT_HAS_MENU_def
      EXT_TRIGGER_ONLY_def EXT_INPUT_LISTENER_def)

end
